theory Spec2Isabelle
  imports Main "HOL-Library.Sublist" "HOL-Library.AList"
begin

section \<open>Python strings\<close>

text \<open>
  Python \<open>str\<close> values are modelled as \<^typ>\<open>string\<close>, a \<^typ>\<open>char\<close> standing for a code
  point below 256.  On these code points \<open>str.lower()\<close> maps the 26 letters and the 30
  capital letters from U+00C0 to U+00DE (the multiplication sign U+00D7 excepted) to the
  code point 32 above, and leaves every other character as it is.  \<open>str.upper()\<close> maps
  the corresponding small letters back and writes the sharp s U+00DF as \<open>SS\<close>; the upper
  case of U+00B5 and of U+00FF lies beyond code point 255, and the model leaves these two
  characters as they are.
\<close>

definition upper_letters :: string where
  "upper_letters = ''ABCDEFGHIJKLMNOPQRSTUVWXYZ'' @ [
      CHR 0xC0, CHR 0xC1, CHR 0xC2, CHR 0xC3, CHR 0xC4, CHR 0xC5, CHR 0xC6, CHR 0xC7,
      CHR 0xC8, CHR 0xC9, CHR 0xCA, CHR 0xCB, CHR 0xCC, CHR 0xCD, CHR 0xCE, CHR 0xCF,
      CHR 0xD0, CHR 0xD1, CHR 0xD2, CHR 0xD3, CHR 0xD4, CHR 0xD5, CHR 0xD6, CHR 0xD8,
      CHR 0xD9, CHR 0xDA, CHR 0xDB, CHR 0xDC, CHR 0xDD, CHR 0xDE]"

definition lower_letters :: string where
  "lower_letters = ''abcdefghijklmnopqrstuvwxyz'' @ [
      CHR 0xE0, CHR 0xE1, CHR 0xE2, CHR 0xE3, CHR 0xE4, CHR 0xE5, CHR 0xE6, CHR 0xE7,
      CHR 0xE8, CHR 0xE9, CHR 0xEA, CHR 0xEB, CHR 0xEC, CHR 0xED, CHR 0xEE, CHR 0xEF,
      CHR 0xF0, CHR 0xF1, CHR 0xF2, CHR 0xF3, CHR 0xF4, CHR 0xF5, CHR 0xF6, CHR 0xF8,
      CHR 0xF9, CHR 0xFA, CHR 0xFB, CHR 0xFC, CHR 0xFD, CHR 0xFE]"

definition lower_char :: "char \<Rightarrow> char" where
  "lower_char c = (case map_of (zip upper_letters lower_letters) c of Some d \<Rightarrow> d | None \<Rightarrow> c)"

definition upper_char :: "char \<Rightarrow> string" where
  "upper_char c =
     (case map_of (zip lower_letters upper_letters) c of
        Some d \<Rightarrow> [d]
      | None \<Rightarrow> if c = CHR 0xDF then ''SS'' else [c])"

text \<open>\<open>s.lower()\<close> and \<open>s.upper()\<close>.\<close>

definition lower :: "string \<Rightarrow> string" where
  "lower s = map lower_char s"

definition upper :: "string \<Rightarrow> string" where
  "upper s = concat (map upper_char s)"

text \<open>\<open>s.replace(old, new)\<close> for one-character \<open>old\<close> and \<open>new\<close>.\<close>

definition replace :: "char \<Rightarrow> char \<Rightarrow> string \<Rightarrow> string" where
  "replace old new s = map (\<lambda>c. if c = old then new else c) s"

text \<open>\<open>s.startswith(p)\<close> and the substring test \<open>sub in s\<close>.\<close>

definition startswith :: "string \<Rightarrow> string \<Rightarrow> bool" where
  "startswith s p = prefix p s"

fun contains :: "string \<Rightarrow> string \<Rightarrow> bool" where
  "contains [] sub = (sub = [])"
| "contains (c # cs) sub = (prefix sub (c # cs) \<or> contains cs sub)"

section \<open>The signing client: URL normalisation\<close>

text \<open>
  The first statement of \<open>AbsoluteAuthClient.request\<close>:
  \<open>url = "/v3" + url if not url.startswith("/v3") else url\<close>.
\<close>

definition normalize_url :: "string \<Rightarrow> string" where
  "normalize_url url = (if \<not> startswith url ''/v3'' then ''/v3'' @ url else url)"

section \<open>The server: tag names\<close>

text \<open>\<open>MCPServer._transform_tag_name\<close>: \<open>tag.lower().replace(' ', '-')\<close>.\<close>

definition transform_tag_name :: "string \<Rightarrow> string" where
  "transform_tag_name tag = replace (CHR '' '') (CHR ''-'') (lower tag)"


section \<open>Dictionaries and sets\<close>

text \<open>
  A Python \<open>dict\<close> is an association list with distinct keys, in insertion order (the
  order in which \<open>.items()\<close> yields them): \<open>d[k] = v\<close> is \<^const>\<open>AList.update\<close>, which
  replaces the value in place when the key is present and appends the entry otherwise,
  and \<open>d.get(k)\<close> is \<^const>\<open>map_of\<close>.  A Python \<open>set\<close> is a list without duplicates;
  only membership of its elements is ever observed.
\<close>

definition set_add :: "'a \<Rightarrow> 'a list \<Rightarrow> 'a list" where
  "set_add x s = (if x \<in> set s then s else s @ [x])"

text \<open>
  The idiom \<open>if k not in d: d[k] = set()\<close> followed by \<open>d[k].add(x)\<close>, used both by the
  flag manager and by the server.
\<close>

definition group_add :: "string \<Rightarrow> 'a \<Rightarrow> (string \<times> 'a list) list \<Rightarrow> (string \<times> 'a list) list" where
  "group_add k x d =
     (let d1 = (if map_of d k = None then AList.update k [] d else d)
      in AList.map_entry k (set_add x) d1)"

section \<open>Settings\<close>

record Settings =
  API_HOST :: string
  DISABLE_ADVANCED_API_BLOCKLIST :: bool

text \<open>
  \<open>Settings.get_feature_flags_from_env\<close>.  The argument is \<open>os.environ\<close>, the list of
  the process's (name, value) pairs.
\<close>

definition env_prefix :: string where
  "env_prefix = ''ABS_FEATURE_''"

definition env_step :: "string \<times> string \<Rightarrow> (string \<times> bool) list \<Rightarrow> (string \<times> bool) list" where
  "env_step kv result =
     (case kv of (key, val) \<Rightarrow>
        if startswith key env_prefix
        then (let feature_name = replace (CHR ''_'') (CHR ''-'') (lower (drop (length env_prefix) key))
              in AList.update feature_name (lower val = ''enabled'') result)
        else result)"

definition get_feature_flags_from_env :: "(string \<times> string) list \<Rightarrow> (string \<times> bool) list" where
  "get_feature_flags_from_env environ =
     (let result = fold env_step environ []
      in if result = [] \<and> map_of result ''device-reporting'' = None
         then AList.update ''device-reporting'' True result
         else result)"

section \<open>The feature flag manager\<close>

type_synonym api_groups = "(string \<times> (string \<times> string) list) list"

record FeatureFlagManager =
  flags :: "(string \<times> bool) list"
  api_groups :: api_groups

text \<open>\<open>FeatureFlagManager.__init__\<close>.\<close>

definition FeatureFlagManager_init :: "(string \<times> string) list \<Rightarrow> FeatureFlagManager" where
  "FeatureFlagManager_init environ =
     \<lparr>flags = get_feature_flags_from_env environ, api_groups = []\<rparr>"

text \<open>\<open>FeatureFlagManager.register_api_group\<close>.\<close>

definition register_api_group ::
  "string \<Rightarrow> string \<Rightarrow> string \<Rightarrow> FeatureFlagManager \<Rightarrow> FeatureFlagManager" where
  "register_api_group group_name api_path http_method mgr =
     mgr\<lparr>api_groups := group_add group_name (api_path, upper http_method) (api_groups mgr)\<rparr>"

text \<open>
  The loop of \<open>is_api_enabled\<close> over \<open>self._api_groups.items()\<close>: the first group that
  holds the pair returns \<open>self._flags.get(group_name, False)\<close>; a loop that runs to its
  end falls through to \<open>return True\<close>.
\<close>

fun scan_groups :: "(string \<times> bool) list \<Rightarrow> api_groups \<Rightarrow> string \<times> string \<Rightarrow> bool" where
  "scan_groups fl [] pair = True"
| "scan_groups fl ((group_name, paths_with_methods) # rest) pair =
     (if pair \<in> set paths_with_methods
      then (case map_of fl group_name of Some b \<Rightarrow> b | None \<Rightarrow> False)
      else scan_groups fl rest pair)"

definition is_api_enabled :: "FeatureFlagManager \<Rightarrow> string \<Rightarrow> string \<Rightarrow> bool" where
  "is_api_enabled mgr api_path http_method =
     (if flags mgr = [] \<and> api_groups mgr = [] then True
      else scan_groups (flags mgr) (api_groups mgr) (api_path, upper http_method))"

text \<open>\<open>FeatureFlagManager.get_enabled_api_groups\<close>.\<close>

definition get_enabled_api_groups :: "FeatureFlagManager \<Rightarrow> string set" where
  "get_enabled_api_groups mgr = set (map fst (filter snd (flags mgr)))"

section \<open>The server: route admission\<close>

datatype MCPType = TOOL | RESOURCE | RESOURCE_TEMPLATE | EXCLUDE

record Route =
  route_path :: string
  route_method :: string

text \<open>
  \<open>MCPServer._route_map_fn\<close>.  Beside the decision, the model returns the calls of
  \<open>feature_flags.is_api_enabled\<close> that the function made, with their arguments.
  \<open>categorize\<close> is the part of the body after the blocklist check.
\<close>

definition categorize ::
  "FeatureFlagManager \<Rightarrow> Route \<Rightarrow> MCPType \<Rightarrow> MCPType \<times> (string \<times> string) list" where
  "categorize feature_flags route mcp_type =
     (let calls = [(route_path route, upper (route_method route))]
      in if \<not> is_api_enabled feature_flags (route_path route) (upper (route_method route))
         then (EXCLUDE, calls)
         else if upper (route_method route) = ''GET'' then (TOOL, calls)
         else if upper (route_method route) \<in> set [''POST'', ''PUT'', ''PATCH'', ''DELETE'']
         then (TOOL, calls)
         else (mcp_type, calls))"

definition route_map_fn ::
  "Settings \<Rightarrow> FeatureFlagManager \<Rightarrow> Route \<Rightarrow> MCPType \<Rightarrow> MCPType \<times> (string \<times> string) list" where
  "route_map_fn settings feature_flags route mcp_type =
     (if contains (route_path route) ''-advanced''
      then (if \<not> DISABLE_ADVANCED_API_BLOCKLIST settings then (EXCLUDE, [])
            else categorize feature_flags route mcp_type)
      else categorize feature_flags route mcp_type)"

section \<open>The server: feature groups from the interface description\<close>

text \<open>
  The \<open>paths\<close> object of the OpenAPI document: for each path, for each method, an
  operation (every entry of a path item is taken to be an operation object); \<open>tags\<close> is
  \<open>None\<close> when the operation has no \<open>"tags"\<close> key.
\<close>

record Operation =
  tags :: "string list option"

type_synonym openapi_paths = "(string \<times> (string \<times> Operation) list) list"

definition operation_tags :: "Operation \<Rightarrow> string list" where
  "operation_tags operation = (case tags operation of Some ts \<Rightarrow> ts | None \<Rightarrow> [])"

text \<open>
  \<open>MCPServer._extract_api_groups_from_openapi\<close>: the first loop fills the server's own
  \<open>_api_groups\<close>, the second registers every member with the flag manager.
\<close>

definition collect_tag :: "string \<Rightarrow> string \<Rightarrow> string \<Rightarrow> api_groups \<Rightarrow> api_groups" where
  "collect_tag pth meth tag groups = group_add (transform_tag_name tag) (pth, upper meth) groups"

definition collect_operation :: "string \<Rightarrow> string \<times> Operation \<Rightarrow> api_groups \<Rightarrow> api_groups" where
  "collect_operation pth mo groups =
     (case mo of (meth, operation) \<Rightarrow> fold (collect_tag pth meth) (operation_tags operation) groups)"

definition collect_path :: "string \<times> (string \<times> Operation) list \<Rightarrow> api_groups \<Rightarrow> api_groups" where
  "collect_path pm groups = (case pm of (pth, methods) \<Rightarrow> fold (collect_operation pth) methods groups)"

definition register_group ::
  "string \<times> (string \<times> string) list \<Rightarrow> FeatureFlagManager \<Rightarrow> FeatureFlagManager" where
  "register_group g mgr =
     (case g of (group_name, paths_with_methods) \<Rightarrow>
        fold (\<lambda>(pth, meth). register_api_group group_name pth meth) paths_with_methods mgr)"

definition extract_api_groups_from_openapi ::
  "openapi_paths \<Rightarrow> api_groups \<times> FeatureFlagManager \<Rightarrow> api_groups \<times> FeatureFlagManager" where
  "extract_api_groups_from_openapi paths st =
     (case st of (server_groups, feature_flags) \<Rightarrow>
        (let groups = fold collect_path paths server_groups
         in (groups, fold register_group groups feature_flags)))"


text \<open>
  For the invariant of these loops: the (group name, member) pairs that a dictionary of
  groups holds, and the pairs that the operations of an interface description declare
  through their tags.
\<close>

definition group_members :: "(string \<times> 'a list) list \<Rightarrow> (string \<times> 'a) set" where
  "group_members d = {(g, x). \<exists>xs. map_of d g = Some xs \<and> x \<in> set xs}"

definition declared_members :: "openapi_paths \<Rightarrow> (string \<times> string \<times> string) set" where
  "declared_members paths =
     {(transform_tag_name tag, pth, upper meth) | tag pth meth methods operation.
        (pth, methods) \<in> set paths \<and> (meth, operation) \<in> set methods
        \<and> tag \<in> set (operation_tags operation)}"

section \<open>JSON values and \<open>json.dumps\<close>\<close>

text \<open>
  The values a request body can hold, without floating-point numbers.  A \<open>dict\<close> keeps
  its items in insertion order, which is the order \<open>json.dumps\<close> writes them in.
\<close>

datatype json =
  JNull | JBool bool | JInt int | JStr string | JList "json list" | JDict "(string \<times> json) list"

definition digit_char :: "nat \<Rightarrow> char" where
  "digit_char d = ''0123456789abcdef'' ! d"

text \<open>Decimal digits of a natural number, as \<open>str(n)\<close> writes them.\<close>

fun str_nat :: "nat \<Rightarrow> string" where
  "str_nat n = (if n < 10 then [digit_char n] else str_nat (n div 10) @ [digit_char (n mod 10)])"

declare str_nat.simps [simp del]

definition str_int :: "int \<Rightarrow> string" where
  "str_int i = (if i < 0 then ''-'' @ str_nat (nat (- i)) else str_nat (nat i))"

definition hex4 :: "nat \<Rightarrow> string" where
  "hex4 n = [digit_char (n div 4096 mod 16), digit_char (n div 256 mod 16),
             digit_char (n div 16 mod 16), digit_char (n mod 16)]"

text \<open>
  String literals as \<open>json.dumps\<close> writes them: the quote and the backslash are
  escaped, the five control characters with a short form use it, and every other
  character below the space becomes \<open>\uXXXX\<close>; with \<open>ensure_ascii\<close> so does every character
  above the tilde.
\<close>

definition escape_char :: "bool \<Rightarrow> char \<Rightarrow> string" where
  "escape_char ensure_ascii c =
     (if c = CHR 0x22 then [CHR 0x5C, CHR 0x22]
      else if c = CHR 0x5C then [CHR 0x5C, CHR 0x5C]
      else if c = CHR 0x08 then [CHR 0x5C, CHR ''b'']
      else if c = CHR 0x0C then [CHR 0x5C, CHR ''f'']
      else if c = CHR 0x0A then [CHR 0x5C, CHR ''n'']
      else if c = CHR 0x0D then [CHR 0x5C, CHR ''r'']
      else if c = CHR 0x09 then [CHR 0x5C, CHR ''t'']
      else if (of_char c :: nat) < 32 \<or> (ensure_ascii \<and> (of_char c :: nat) > 126)
      then [CHR 0x5C, CHR ''u''] @ hex4 (of_char c)
      else [c])"

definition encode_basestring :: "bool \<Rightarrow> string \<Rightarrow> string" where
  "encode_basestring ensure_ascii s = [CHR 0x22] @ concat (map (escape_char ensure_ascii) s) @ [CHR 0x22]"

fun join :: "string \<Rightarrow> string list \<Rightarrow> string" where
  "join sep [] = []"
| "join sep [x] = x"
| "join sep (x # y # r) = x @ sep @ join sep (y # r)"

text \<open>
  \<open>json.dumps(obj, ensure_ascii=..., separators=(item_separator, key_separator))\<close>; the
  defaults are \<open>ensure_ascii=True\<close> and the separators \<open>", "\<close> and \<open>": "\<close>.
\<close>

fun dumps :: "bool \<Rightarrow> string \<Rightarrow> string \<Rightarrow> json \<Rightarrow> string" where
  "dumps ea isep ksep JNull = ''null''"
| "dumps ea isep ksep (JBool b) = (if b then ''true'' else ''false'')"
| "dumps ea isep ksep (JInt i) = str_int i"
| "dumps ea isep ksep (JStr s) = encode_basestring ea s"
| "dumps ea isep ksep (JList xs) = ''['' @ join isep (map (dumps ea isep ksep) xs) @ '']''"
| "dumps ea isep ksep (JDict kvs) =
     ''{'' @ join isep (map (\<lambda>kv. encode_basestring ea (fst kv) @ ksep @ dumps ea isep ksep (snd kv)) kvs)
     @ ''}''"

definition json_dumps :: "json \<Rightarrow> string" where
  "json_dumps obj = dumps True '', '' '': '' obj"

text \<open>
  The UTF-8 bytes of a string, for the code points below 256 that a \<^typ>\<open>char\<close> holds.
\<close>

definition utf8_char :: "char \<Rightarrow> string" where
  "utf8_char c =
     (if (of_char c :: nat) < 128 then [c]
      else [char_of (192 + (of_char c :: nat) div 64), char_of (128 + (of_char c :: nat) mod 64)])"

definition to_bytes :: "string \<Rightarrow> string" where
  "to_bytes s = concat (map utf8_char s)"

section \<open>JWS compact serialisation\<close>

text \<open>Base64 with the URL-safe alphabet and without the trailing \<open>=\<close> padding.\<close>

definition bits_of_char :: "char \<Rightarrow> bool list" where
  "bits_of_char c =
     [digit7 c, digit6 c, digit5 c, digit4 c, digit3 c, digit2 c, digit1 c, digit0 c]"

definition b64url_alphabet :: string where
  "b64url_alphabet = ''ABCDEFGHIJKLMNOPQRSTUVWXYZabcdefghijklmnopqrstuvwxyz0123456789-_''"

definition sextet_value :: "bool list \<Rightarrow> nat" where
  "sextet_value bs = foldl (\<lambda>n b. 2 * n + (if b then 1 else 0)) 0 bs"

fun sextets :: "bool list \<Rightarrow> bool list list" where
  "sextets (a # b # c # d # e # f # rest) = [a, b, c, d, e, f] # sextets rest"
| "sextets [] = []"
| "sextets bs = [take 6 (bs @ replicate 6 False)]"

definition urlsafe_b64encode :: "string \<Rightarrow> string" where
  "urlsafe_b64encode s =
     map (\<lambda>g. b64url_alphabet ! sextet_value g) (sextets (concat (map bits_of_char s)))"

text \<open>The six bits of a number below 64, most significant first.\<close>

definition unsextet :: "nat \<Rightarrow> bool list" where
  "unsextet n = [n div 32 mod 2 = 1, n div 16 mod 2 = 1, n div 8 mod 2 = 1,
                 n div 4 mod 2 = 1, n div 2 mod 2 = 1, n mod 2 = 1]"

text \<open>
  Modelled from the spec: \<open>JsonWebSignature.serialize_compact\<close> of the authlib library,
  which the signing client calls and which is not part of the repository.  The spec
  gives its output as the JSON Web Signature compact serialisation of header and payload:
  the header written as JSON without spaces (authlib leaves non-ASCII characters
  unescaped there), the bytes of header and payload in base64url, joined by a dot, and
  the base64url of the signature of these two segments appended after a second dot.  The
  HMAC-SHA256 function \<open>hs256 key message\<close> is a parameter.
\<close>

definition serialize_compact ::
  "(string \<Rightarrow> string \<Rightarrow> string) \<Rightarrow> json \<Rightarrow> string \<Rightarrow> string \<Rightarrow> string" where
  "serialize_compact hs256 protected payload key =
     (let protected_segment = urlsafe_b64encode (to_bytes (dumps False '','' '':'' protected));
          payload_segment = urlsafe_b64encode (to_bytes payload);
          signing_input = protected_segment @ ''.'' @ payload_segment;
          signature = urlsafe_b64encode (hs256 (to_bytes key) signing_input)
      in protected_segment @ ''.'' @ payload_segment @ ''.'' @ signature)"

section \<open>The signing client\<close>

record AbsoluteAuthClient =
  token_id :: string
  token_secret :: string
  api_endpoint :: string

text \<open>\<open>AbsoluteAuthClient.__init__\<close>.\<close>

definition AbsoluteAuthClient_init :: "Settings \<Rightarrow> string \<Rightarrow> string \<Rightarrow> AbsoluteAuthClient" where
  "AbsoluteAuthClient_init settings api_key api_secret =
     \<lparr>token_id = api_key, token_secret = api_secret,
      api_endpoint = API_HOST settings @ ''/jws/validate''\<rparr>"

text \<open>
  What the client takes from outside the repository: the HMAC-SHA256 function, and
  \<open>urlparse\<close> (reduced to the path and the query of its result) and \<open>urlencode\<close> of
  \<open>urllib.parse\<close>.
\<close>

record Library =
  hs256 :: "string \<Rightarrow> string \<Rightarrow> string"
  urlparse :: "string \<Rightarrow> string \<times> string"
  urlencode :: "(string \<times> json) list \<Rightarrow> string"

text \<open>
  \<open>payload = json_data if json_data else {}\<close> and the \<open>{"data": payload}\<close> around it.
\<close>

definition request_payload_data :: "(string \<times> json) list option \<Rightarrow> json" where
  "request_payload_data json_data =
     (let payload = (case json_data of
                       Some d \<Rightarrow> if d \<noteq> [] then d else []
                     | None \<Rightarrow> [])
      in JDict [(''data'', JDict payload)])"

text \<open>The JWS header; \<open>issued_at\<close> is the value of \<open>round(time.time() * 1000)\<close>.\<close>

definition jws_header ::
  "AbsoluteAuthClient \<Rightarrow> int \<Rightarrow> string \<Rightarrow> string \<Rightarrow> string \<Rightarrow> json" where
  "jws_header self issued_at meth pth query_string =
     JDict [(''alg'', JStr ''HS256''),
            (''kid'', JStr (token_id self)),
            (''method'', JStr (upper meth)),
            (''content-type'', JStr ''application/json''),
            (''uri'', JStr pth),
            (''query-string'', JStr query_string),
            (''issuedAt'', JInt issued_at)]"

text \<open>\<open>AbsoluteAuthClient._prepare_jws_payload\<close>.\<close>

definition prepare_jws_payload ::
  "Library \<Rightarrow> AbsoluteAuthClient \<Rightarrow> int \<Rightarrow> string \<Rightarrow> string \<Rightarrow> string
   \<Rightarrow> (string \<times> json) list option \<Rightarrow> string" where
  "prepare_jws_payload lib self issued_at meth pth query_string json_data =
     serialize_compact (hs256 lib)
       (jws_header self issued_at meth pth query_string)
       (json_dumps (request_payload_data json_data))
       (token_secret self)"

text \<open>
  The keyword arguments of \<open>request\<close> that the body reads; \<open>req_transport\<close> stands for
  \<open>cookies\<close>, \<open>follow_redirects\<close>, \<open>timeout\<close>, \<open>extensions\<close> and \<open>**kwargs\<close>, which are
  handed on as they are.
\<close>

record 'x RequestArgs =
  req_json :: "(string \<times> json) list option"
  req_params :: "(string \<times> json) list option"
  req_headers :: "(string \<times> string) list option"
  req_api_endpoint :: "string option"
  req_transport :: 'x

text \<open>The call \<open>super().request(...)\<close> that \<open>request\<close> ends with.\<close>

record 'x TransportCall =
  call_method :: string
  call_url :: string
  call_content :: string
  call_headers :: "(string \<times> string) list"
  call_transport :: 'x

definition merge_header :: "string \<times> string \<Rightarrow> (string \<times> string) list \<Rightarrow> (string \<times> string) list" where
  "merge_header kv jws_headers =
     (case kv of (key, val) \<Rightarrow>
        if lower key \<noteq> ''content-type'' then AList.update key val jws_headers else jws_headers)"

text \<open>\<open>AbsoluteAuthClient.request\<close>, up to the call of the parent class's \<open>request\<close>.\<close>

definition request ::
  "Library \<Rightarrow> AbsoluteAuthClient \<Rightarrow> int \<Rightarrow> string \<Rightarrow> string \<Rightarrow> 'x RequestArgs \<Rightarrow> 'x TransportCall" where
  "request lib self issued_at meth url args =
     (let url1 = normalize_url url;
          pth = fst (urlparse lib url1);
          query_string = snd (urlparse lib url1);
          query_string1 =
            (case req_params args of
               Some ps \<Rightarrow>
                 if ps \<noteq> []
                 then (let additional_query = urlencode lib ps
                       in if query_string \<noteq> [] then query_string @ ''&'' @ additional_query
                          else additional_query)
                 else query_string
             | None \<Rightarrow> query_string);
          signed_payload = prepare_jws_payload lib self issued_at meth pth query_string1 (req_json args);
          jws_headers = [(''content-type'', ''text/plain'')];
          jws_headers1 =
            (case req_headers args of
               Some hs \<Rightarrow> if hs \<noteq> [] then fold merge_header hs jws_headers else jws_headers
             | None \<Rightarrow> jws_headers);
          endpoint =
            (case req_api_endpoint args of
               Some e \<Rightarrow> if e \<noteq> [] then e else api_endpoint self
             | None \<Rightarrow> api_endpoint self)
      in \<lparr>call_method = ''POST'', call_url = endpoint, call_content = signed_payload,
          call_headers = jws_headers1, call_transport = req_transport args\<rparr>)"

section \<open>Properties\<close>

lemmas char_case_defs = lower_def upper_def lower_char_def upper_char_def upper_letters_def lower_letters_def

lemmas extract_defs = extract_api_groups_from_openapi_def collect_path_def collect_operation_def
  collect_tag_def operation_tags_def register_group_def register_api_group_def group_add_def set_add_def
  transform_tag_name_def replace_def FeatureFlagManager_init_def get_feature_flags_from_env_def env_step_def
  env_prefix_def startswith_def

lemmas dumps_defs = json_dumps_def encode_basestring_def escape_char_def

lemma contains_iff: "contains s sub \<longleftrightarrow> (\<exists>a b. s = a @ sub @ b)"
proof (induction s)
  case Nil
  then show ?case by auto
next
  case (Cons c cs)
  show ?case
  proof
    assume "contains (c # cs) sub"
    then consider "prefix sub (c # cs)" | "contains cs sub" by auto
    then show "\<exists>a b. c # cs = a @ sub @ b"
    proof cases
      case 1
      then obtain b where "c # cs = sub @ b" by (auto simp: prefix_def)
      then have "c # cs = [] @ sub @ b" by simp
      then show ?thesis by blast
    next
      case 2
      then obtain a b where "cs = a @ sub @ b" using Cons.IH by blast
      then have "c # cs = (c # a) @ sub @ b" by simp
      then show ?thesis by blast
    qed
  next
    assume "\<exists>a b. c # cs = a @ sub @ b"
    then obtain a b where ab: "c # cs = a @ sub @ b" by blast
    show "contains (c # cs) sub"
    proof (cases a)
      case Nil
      then have "prefix sub (c # cs)" using ab by (simp add: prefix_def)
      then show ?thesis by simp
    next
      case (Cons x a')
      then have "cs = a' @ sub @ b" using ab by simp
      then have "contains cs sub" using Cons.IH by blast
      then show ?thesis by simp
    qed
  qed
qed

text \<open>
  C6.  Normalising a url always gives a string that starts with \<open>/v3\<close>; a url that
  already starts with \<open>/v3\<close> is returned unchanged; normalising twice is the same as
  normalising once; and the result starts with \<open>/v3/v3\<close> only when the url itself
  already did (in which case it is returned unchanged), so the step never adds a second
  prefix to a prefixed path.
\<close>

theorem normalize_url_prefixed_idempotent:
  "startswith (normalize_url url) ''/v3''
   \<and> (if startswith url ''/v3'' then normalize_url url = url else normalize_url url = ''/v3'' @ url)
   \<and> normalize_url (normalize_url url) = normalize_url url
   \<and> (startswith (normalize_url url) ''/v3/v3'' = startswith url ''/v3/v3'')"
  by (auto simp: normalize_url_def startswith_def prefix_def)

theorem normalize_url_witness:
  "startswith (normalize_url ''/api/test'') ''/v3'' \<and> normalize_url ''/api/test'' = ''/v3/api/test''
   \<and> normalize_url ''/v3/api/test'' = ''/v3/api/test''"
  using normalize_url_prefixed_idempotent [of "''/api/test''"] normalize_url_prefixed_idempotent [of "''/v3/api/test''"]
  by (simp add: startswith_def)

subsection \<open>Tag names\<close>

lemma replace_inj:
  "new \<notin> set s \<Longrightarrow> new \<notin> set t \<Longrightarrow> replace old new s = replace old new t \<Longrightarrow> s = t"
proof (induction s arbitrary: t)
  case Nil
  then show ?case by (simp add: replace_def)
next
  case (Cons a s)
  then obtain b t' where t: "t = b # t'" by (cases t) (auto simp: replace_def)
  with Cons.prems have "a = b" by (auto simp: replace_def split: if_splits)
  moreover have "s = t'" using Cons.IH[of t'] Cons.prems t by (auto simp: replace_def)
  ultimately show ?case using t by simp
qed

text \<open>
  C8, as stated, fails: the transform sends two different tags to one group name as soon
  as they differ only in letter case or in a space against a dash.
\<close>

theorem transform_tag_name_collision:
  "transform_tag_name ''Device Reporting'' = transform_tag_name ''device-reporting''
   \<and> ''Device Reporting'' \<noteq> ''device-reporting''"
  by (simp add: transform_tag_name_def replace_def char_case_defs)

lemma lower_char_keeps:
  assumes "x \<notin> set upper_letters" and "x \<notin> set lower_letters"
  shows "lower_char c = x \<longleftrightarrow> c = x"
proof (cases "map_of (zip upper_letters lower_letters) c")
  case None
  moreover have "map_of (zip upper_letters lower_letters) x = None"
    using assms(1) by (auto simp: map_of_eq_None_iff dest: set_zip_leftD)
  ultimately show ?thesis by (simp add: lower_char_def)
next
  case (Some d)
  then have "d \<in> set lower_letters" "c \<in> set upper_letters"
    by (auto dest: map_of_SomeD set_zip_rightD set_zip_leftD)
  then show ?thesis using Some assms by (auto simp: lower_char_def)
qed

lemma lower_char_dash: "lower_char c = CHR ''-'' \<longleftrightarrow> c = CHR ''-''"
  by (rule lower_char_keeps) (simp_all add: upper_letters_def lower_letters_def)

lemma lower_char_space: "lower_char c = CHR '' '' \<longleftrightarrow> c = CHR '' ''"
  by (rule lower_char_keeps) (simp_all add: upper_letters_def lower_letters_def)

lemma lower_char_marks:
  "CHR ''-'' = lower_char c \<longleftrightarrow> c = CHR ''-''"
  "CHR '' '' = lower_char c \<longleftrightarrow> c = CHR '' ''"
  "lower_char CHR ''-'' = CHR ''-''"
  "lower_char CHR '' '' = CHR '' ''"
  using lower_char_dash [of c] lower_char_space [of c]
    lower_char_dash [of "CHR ''-''"] lower_char_space [of "CHR '' ''"]
  by auto

lemma lower_no_dash: "CHR ''-'' \<in> set (lower t) \<longleftrightarrow> CHR ''-'' \<in> set t"
  by (induction t) (auto simp: lower_def lower_char_dash lower_char_marks)

lemma replace_lower: "replace (CHR '' '') (CHR ''-'') (lower t) = lower (replace (CHR '' '') (CHR ''-'') t)"
  by (induction t) (simp_all add: replace_def lower_def lower_char_space lower_char_marks)

text \<open>
  C8, amended.  The transform is defined on every tag (the group name has the length of
  the tag), and it is free of collisions only up to letter case and to the exchange of
  space and dash.  Two tags that are equal after lower-casing, or equal after the
  replacement of spaces by dashes, get the same group name, and two tags get the same
  group name exactly when they are equal after both.  For tags that hold no dash, the
  group names are equal exactly when the tags are equal after lower-casing.
\<close>

theorem transform_tag_name_collisions:
  "length (transform_tag_name t1) = length t1
   \<and> (lower t1 = lower t2 \<longrightarrow> transform_tag_name t1 = transform_tag_name t2)
   \<and> (replace (CHR '' '') (CHR ''-'') t1 = replace (CHR '' '') (CHR ''-'') t2
        \<longrightarrow> transform_tag_name t1 = transform_tag_name t2)
   \<and> ((transform_tag_name t1 = transform_tag_name t2)
        = (lower (replace (CHR '' '') (CHR ''-'') t1) = lower (replace (CHR '' '') (CHR ''-'') t2)))
   \<and> (CHR ''-'' \<notin> set t1 \<and> CHR ''-'' \<notin> set t2
        \<longrightarrow> (transform_tag_name t1 = transform_tag_name t2) = (lower t1 = lower t2))"
proof -
  have len: "length (transform_tag_name t1) = length t1"
    by (simp add: transform_tag_name_def replace_def lower_def)
  have "case": "lower t1 = lower t2 \<longrightarrow> transform_tag_name t1 = transform_tag_name t2"
    by (simp add: transform_tag_name_def)
  have space: "replace (CHR '' '') (CHR ''-'') t1 = replace (CHR '' '') (CHR ''-'') t2
        \<longrightarrow> transform_tag_name t1 = transform_tag_name t2"
    by (simp add: transform_tag_name_def replace_lower)
  have both: "(transform_tag_name t1 = transform_tag_name t2)
        = (lower (replace (CHR '' '') (CHR ''-'') t1) = lower (replace (CHR '' '') (CHR ''-'') t2))"
    by (simp add: transform_tag_name_def replace_lower)
  have free: "(transform_tag_name t1 = transform_tag_name t2) = (lower t1 = lower t2)"
    if "CHR ''-'' \<notin> set t1 \<and> CHR ''-'' \<notin> set t2"
  proof
    assume "transform_tag_name t1 = transform_tag_name t2"
    then show "lower t1 = lower t2"
      using that replace_inj [of "CHR ''-''" "lower t1" "lower t2" "CHR '' ''"]
      by (simp add: transform_tag_name_def lower_no_dash)
  next
    assume "lower t1 = lower t2"
    then show "transform_tag_name t1 = transform_tag_name t2" using "case" by blast
  qed
  show ?thesis using len "case" space both free by blast
qed

theorem transform_tag_name_collisions_witness:
  "transform_tag_name ''Device Reporting'' = transform_tag_name ''DEVICE reporting''
   \<and> transform_tag_name ''Device Reporting'' = transform_tag_name ''Device-Reporting''
   \<and> transform_tag_name ''Device Reporting'' \<noteq> transform_tag_name ''Software Reporting''"
proof -
  have c: "lower ''Device Reporting'' = lower ''DEVICE reporting''"
    by (simp add: char_case_defs)
  have s: "replace (CHR '' '') (CHR ''-'') ''Device Reporting''
             = replace (CHR '' '') (CHR ''-'') ''Device-Reporting''"
    by (simp add: replace_def)
  have d: "CHR ''-'' \<notin> set ''Device Reporting'' \<and> CHR ''-'' \<notin> set ''Software Reporting''"
    by simp
  have n: "lower ''Device Reporting'' \<noteq> lower ''Software Reporting''"
    by (simp add: char_case_defs)
  show ?thesis
    using transform_tag_name_collisions [of "''Device Reporting''" "''DEVICE reporting''"] c
      transform_tag_name_collisions [of "''Device Reporting''" "''Device-Reporting''"] s
      transform_tag_name_collisions [of "''Device Reporting''" "''Software Reporting''"] d n
    by blast
qed

subsection \<open>Route admission\<close>

text \<open>
  C1.  When the path of a route contains \<open>-advanced\<close> and the blocklist is active, the
  decision is \<open>EXCLUDE\<close> whatever the flag manager holds, and \<open>is_api_enabled\<close> is not
  called.  When the blocklist is disabled the decision is the one of the flag rule and the
  method rule, with one flag lookup, by the same formula that applies to a path without
  the marker.
\<close>

theorem route_map_fn_blocklist:
  "(contains (route_path route) ''-advanced'' \<and> \<not> DISABLE_ADVANCED_API_BLOCKLIST settings
      \<longrightarrow> route_map_fn settings feature_flags route mcp_type = (EXCLUDE, []))
   \<and> (\<not> contains (route_path route) ''-advanced'' \<or> DISABLE_ADVANCED_API_BLOCKLIST settings
      \<longrightarrow> route_map_fn settings feature_flags route mcp_type =
          (if \<not> is_api_enabled feature_flags (route_path route) (upper (route_method route)) then EXCLUDE
           else if upper (route_method route) \<in> {''GET'', ''POST'', ''PUT'', ''PATCH'', ''DELETE''} then TOOL
           else mcp_type,
           [(route_path route, upper (route_method route))]))"
  by (auto simp: route_map_fn_def categorize_def Let_def)

theorem route_map_fn_blocklist_witness:
  "route_map_fn \<lparr>API_HOST = ''https://api.absolute.com'', DISABLE_ADVANCED_API_BLOCKLIST = False\<rparr>
     \<lparr>flags = [(''device-reporting'', True)], api_groups = []\<rparr>
     \<lparr>route_path = ''/api/test-advanced'', route_method = ''GET''\<rparr> RESOURCE = (EXCLUDE, [])
   \<and> route_map_fn \<lparr>API_HOST = ''https://api.absolute.com'', DISABLE_ADVANCED_API_BLOCKLIST = True\<rparr>
     \<lparr>flags = [(''device-reporting'', True)], api_groups = []\<rparr>
     \<lparr>route_path = ''/api/test-advanced'', route_method = ''get''\<rparr> RESOURCE = (TOOL, [(''/api/test-advanced'', ''GET'')])"
  using route_map_fn_blocklist [of "\<lparr>route_path = ''/api/test-advanced'', route_method = ''GET''\<rparr>"
      "\<lparr>API_HOST = ''https://api.absolute.com'', DISABLE_ADVANCED_API_BLOCKLIST = False\<rparr>"
      "\<lparr>flags = [(''device-reporting'', True)], api_groups = []\<rparr>" RESOURCE]
    route_map_fn_blocklist [of "\<lparr>route_path = ''/api/test-advanced'', route_method = ''get''\<rparr>"
      "\<lparr>API_HOST = ''https://api.absolute.com'', DISABLE_ADVANCED_API_BLOCKLIST = True\<rparr>"
      "\<lparr>flags = [(''device-reporting'', True)], api_groups = []\<rparr>" RESOURCE]
  by (simp add: is_api_enabled_def char_case_defs)

text \<open>
  C7.  When the blocklist does not exclude the route and \<open>is_api_enabled\<close> holds for it,
  a method whose upper-casing is one of GET, POST, PUT, PATCH, DELETE gives \<open>TOOL\<close>, and any
  other method gives back the classification that was passed in.
\<close>

theorem route_map_fn_method_rule:
  assumes "\<not> (contains (route_path route) ''-advanced'' \<and> \<not> DISABLE_ADVANCED_API_BLOCKLIST settings)"
    and "is_api_enabled feature_flags (route_path route) (upper (route_method route))"
  shows "(upper (route_method route) \<in> {''GET'', ''POST'', ''PUT'', ''PATCH'', ''DELETE''}
            \<longrightarrow> fst (route_map_fn settings feature_flags route mcp_type) = TOOL)
       \<and> (upper (route_method route) \<notin> {''GET'', ''POST'', ''PUT'', ''PATCH'', ''DELETE''}
            \<longrightarrow> fst (route_map_fn settings feature_flags route mcp_type) = mcp_type)"
  using assms by (auto simp: route_map_fn_def categorize_def Let_def)

theorem route_map_fn_method_rule_witness:
  "fst (route_map_fn \<lparr>API_HOST = ''https://api.absolute.com'', DISABLE_ADVANCED_API_BLOCKLIST = False\<rparr>
     \<lparr>flags = [(''device-reporting'', True)], api_groups = [(''device-reporting'', [(''/api/test'', ''PATCH'')])]\<rparr>
     \<lparr>route_path = ''/api/test'', route_method = ''patch''\<rparr> RESOURCE) = TOOL
   \<and> fst (route_map_fn \<lparr>API_HOST = ''https://api.absolute.com'', DISABLE_ADVANCED_API_BLOCKLIST = False\<rparr>
     \<lparr>flags = [(''device-reporting'', True)], api_groups = [(''device-reporting'', [(''/api/test'', ''PATCH'')])]\<rparr>
     \<lparr>route_path = ''/api/test'', route_method = ''options''\<rparr> RESOURCE_TEMPLATE) = RESOURCE_TEMPLATE"
proof -
  let ?s = "\<lparr>API_HOST = ''https://api.absolute.com'', DISABLE_ADVANCED_API_BLOCKLIST = False\<rparr>"
  let ?f = "\<lparr>flags = [(''device-reporting'', True)], api_groups = [(''device-reporting'', [(''/api/test'', ''PATCH'')])]\<rparr>"
  let ?r1 = "\<lparr>route_path = ''/api/test'', route_method = ''patch''\<rparr>"
  let ?r2 = "\<lparr>route_path = ''/api/test'', route_method = ''options''\<rparr>"
  have b1: "\<not> (contains (route_path ?r1) ''-advanced'' \<and> \<not> DISABLE_ADVANCED_API_BLOCKLIST ?s)" by simp
  have b2: "\<not> (contains (route_path ?r2) ''-advanced'' \<and> \<not> DISABLE_ADVANCED_API_BLOCKLIST ?s)" by simp
  have e1: "is_api_enabled ?f (route_path ?r1) (upper (route_method ?r1))" by (simp add: is_api_enabled_def char_case_defs)
  have e2: "is_api_enabled ?f (route_path ?r2) (upper (route_method ?r2))" by (simp add: is_api_enabled_def char_case_defs)
  have u1: "upper (route_method ?r1) \<in> {''GET'', ''POST'', ''PUT'', ''PATCH'', ''DELETE''}" by (simp add: char_case_defs)
  have u2: "upper (route_method ?r2) \<notin> {''GET'', ''POST'', ''PUT'', ''PATCH'', ''DELETE''}" by (simp add: char_case_defs)
  show ?thesis
    using route_map_fn_method_rule [OF b1 e1, of RESOURCE] route_map_fn_method_rule [OF b2 e2, of RESOURCE_TEMPLATE] u1 u2
    by blast
qed

subsection \<open>Flag evaluation\<close>

lemma scan_groups_no_member:
  "\<forall>(g, pms) \<in> set groups. pair \<notin> set pms \<Longrightarrow> scan_groups fl groups pair"
  by (induction groups) auto

lemma scan_groups_first:
  "find (\<lambda>(g, pms). pair \<in> set pms) groups = Some (g, pms)
   \<Longrightarrow> scan_groups fl groups pair = (map_of fl g = Some True)"
  by (induction groups) (auto split: option.splits if_splits)

lemma find_Some_member: "find P xs = Some x \<Longrightarrow> x \<in> set xs \<and> P x"
  by (induction xs) (auto split: if_splits)

text \<open>
  C2, as stated, fails in its second half.  An operation that carries two tags is
  registered in two groups, and \<open>is_api_enabled\<close> returns at the first group that holds
  the pair: with the default flags, GET \<open>/api/test\<close> tagged \<open>Device Reporting\<close> and
  \<open>Software Reporting\<close> belongs to the group \<open>software-reporting\<close>, which has no flag
  entry, and is enabled all the same.
\<close>

theorem is_api_enabled_two_groups:
  "snd (extract_api_groups_from_openapi
            [(''/api/test'', [(''get'', \<lparr>tags = Some [''Device Reporting'', ''Software Reporting'']\<rparr>)])]
            ([], FeatureFlagManager_init [(''HOME'', ''/root'')]))
     = \<lparr>flags = [(''device-reporting'', True)],
        api_groups = [(''device-reporting'', [(''/api/test'', ''GET'')]),
                      (''software-reporting'', [(''/api/test'', ''GET'')])]\<rparr>
   \<and> map_of [(''device-reporting'', True)] ''software-reporting'' = None
   \<and> is_api_enabled \<lparr>flags = [(''device-reporting'', True)],
        api_groups = [(''device-reporting'', [(''/api/test'', ''GET'')]),
                      (''software-reporting'', [(''/api/test'', ''GET'')])]\<rparr>
        ''/api/test'' ''GET'' = True"
  by (simp add: is_api_enabled_def char_case_defs extract_defs)

text \<open>
  C2, amended.  The pair of a path and an upper-cased method that belongs to no registered
  group is enabled whatever the flags are.  For a pair that belongs to a registered
  group, the first group in registration order that holds it decides: the result is the
  flag of that group, and false when the name of that group has no entry in the flag
  map; in particular the result is false when no group that holds the pair has an entry.
\<close>

theorem is_api_enabled_first_group:
  "((\<forall>(g, pms) \<in> set (api_groups mgr). (api_path, upper http_method) \<notin> set pms)
      \<longrightarrow> is_api_enabled mgr api_path http_method)
   \<and> (find (\<lambda>(g, pms). (api_path, upper http_method) \<in> set pms) (api_groups mgr) = Some (g, pms)
      \<longrightarrow> is_api_enabled mgr api_path http_method
            = (case map_of (flags mgr) g of Some enabled \<Rightarrow> enabled | None \<Rightarrow> False))
   \<and> (find (\<lambda>(g, pms). (api_path, upper http_method) \<in> set pms) (api_groups mgr) = Some (g, pms)
        \<and> map_of (flags mgr) g = None
      \<longrightarrow> \<not> is_api_enabled mgr api_path http_method)
   \<and> ((\<exists>(g, pms) \<in> set (api_groups mgr). (api_path, upper http_method) \<in> set pms)
        \<and> (\<forall>(g, pms) \<in> set (api_groups mgr). (api_path, upper http_method) \<in> set pms \<longrightarrow> map_of (flags mgr) g = None)
      \<longrightarrow> \<not> is_api_enabled mgr api_path http_method)"
proof -
  let ?pair = "(api_path, upper http_method)"
  let ?holds = "\<lambda>(g, pms). ?pair \<in> set pms"
  have none: "is_api_enabled mgr api_path http_method"
    if "\<forall>(g, pms) \<in> set (api_groups mgr). ?pair \<notin> set pms"
    using that by (simp add: is_api_enabled_def scan_groups_no_member)
  have first: "is_api_enabled mgr api_path http_method
                 = (case map_of (flags mgr) g of Some enabled \<Rightarrow> enabled | None \<Rightarrow> False)"
    if f: "find ?holds (api_groups mgr) = Some (g, pms)" for g pms
  proof -
    have "api_groups mgr \<noteq> []" using f by auto
    then have "is_api_enabled mgr api_path http_method = (map_of (flags mgr) g = Some True)"
      using scan_groups_first [OF f, of "flags mgr"] by (simp add: is_api_enabled_def)
    then show ?thesis by (auto split: option.splits)
  qed
  have closed: "\<not> is_api_enabled mgr api_path http_method"
    if "find ?holds (api_groups mgr) = Some (g, pms) \<and> map_of (flags mgr) g = None" for g pms
    using that first [of g pms] by simp
  have all_closed: "\<not> is_api_enabled mgr api_path http_method"
    if a: "(\<exists>(g, pms) \<in> set (api_groups mgr). ?pair \<in> set pms)
        \<and> (\<forall>(g, pms) \<in> set (api_groups mgr). ?pair \<in> set pms \<longrightarrow> map_of (flags mgr) g = None)"
  proof -
    obtain g0 pms0 where f: "find ?holds (api_groups mgr) = Some (g0, pms0)"
      using a by (cases "find ?holds (api_groups mgr)") (auto simp: find_None_iff)
    then have "(g0, pms0) \<in> set (api_groups mgr)" "?pair \<in> set pms0"
      using find_Some_member [OF f] by auto
    then have "map_of (flags mgr) g0 = None" using a by auto
    then show ?thesis using closed f by blast
  qed
  show ?thesis using none first closed all_closed by blast
qed

theorem is_api_enabled_first_group_witness:
  "is_api_enabled \<lparr>flags = [(''test_group'', False)], api_groups = [(''test_group'', [(''/api/test1'', ''GET'')])]\<rparr>
     ''/api/other'' ''get''
   \<and> is_api_enabled \<lparr>flags = [(''device-reporting'', True)],
        api_groups = [(''device-reporting'', [(''/api/test'', ''GET'')]),
                      (''software-reporting'', [(''/api/test'', ''GET'')])]\<rparr>
     ''/api/test'' ''GET''
   \<and> \<not> is_api_enabled \<lparr>flags = [(''a'', False), (''b'', True)],
        api_groups = [(''a'', [(''/api/test'', ''GET'')]), (''b'', [(''/api/test'', ''GET'')])]\<rparr>
     ''/api/test'' ''get''
   \<and> \<not> is_api_enabled \<lparr>flags = [(''device-reporting'', True)],
        api_groups = [(''software-reporting'', [(''/api/sw'', ''GET'')]), (''device-reporting'', [(''/api/dev'', ''GET'')])]\<rparr>
     ''/api/sw'' ''get''
   \<and> \<not> is_api_enabled \<lparr>flags = [(''device-reporting'', True)],
        api_groups = [(''software-reporting'', [(''/api/sw'', ''GET'')]), (''licenses'', [(''/api/sw'', ''GET'')])]\<rparr>
     ''/api/sw'' ''GET''"
proof -
  let ?m1 = "\<lparr>flags = [(''test_group'', False)], api_groups = [(''test_group'', [(''/api/test1'', ''GET'')])]\<rparr>"
  let ?m2 = "\<lparr>flags = [(''device-reporting'', True)],
        api_groups = [(''software-reporting'', [(''/api/sw'', ''GET'')]), (''device-reporting'', [(''/api/dev'', ''GET'')])]\<rparr>"
  let ?m3 = "\<lparr>flags = [(''device-reporting'', True)],
        api_groups = [(''software-reporting'', [(''/api/sw'', ''GET'')]), (''licenses'', [(''/api/sw'', ''GET'')])]\<rparr>"
  let ?m4 = "\<lparr>flags = [(''device-reporting'', True)],
        api_groups = [(''device-reporting'', [(''/api/test'', ''GET'')]),
                      (''software-reporting'', [(''/api/test'', ''GET'')])]\<rparr>"
  let ?m5 = "\<lparr>flags = [(''a'', False), (''b'', True)],
        api_groups = [(''a'', [(''/api/test'', ''GET'')]), (''b'', [(''/api/test'', ''GET'')])]\<rparr>"
  have h1: "\<forall>(g, pms) \<in> set (api_groups ?m1). (''/api/other'', upper ''get'') \<notin> set pms"
    by (simp add: char_case_defs)
  have h2: "find (\<lambda>(g, pms). (''/api/sw'', upper ''get'') \<in> set pms) (api_groups ?m2)
              = Some (''software-reporting'', [(''/api/sw'', ''GET'')])
            \<and> map_of (flags ?m2) ''software-reporting'' = None"
    by (simp add: char_case_defs)
  have h3: "(\<exists>(g, pms) \<in> set (api_groups ?m3). (''/api/sw'', upper ''GET'') \<in> set pms)
            \<and> (\<forall>(g, pms) \<in> set (api_groups ?m3). (''/api/sw'', upper ''GET'') \<in> set pms
                  \<longrightarrow> map_of (flags ?m3) g = None)"
    by (simp add: char_case_defs)
  have h4: "find (\<lambda>(g, pms). (''/api/test'', upper ''GET'') \<in> set pms) (api_groups ?m4)
              = Some (''device-reporting'', [(''/api/test'', ''GET'')])"
    by (simp add: char_case_defs)
  have v4: "(case map_of (flags ?m4) ''device-reporting'' of Some enabled \<Rightarrow> enabled | None \<Rightarrow> False) = True"
    by simp
  have h5: "find (\<lambda>(g, pms). (''/api/test'', upper ''get'') \<in> set pms) (api_groups ?m5)
              = Some (''a'', [(''/api/test'', ''GET'')])"
    by (simp add: char_case_defs)
  have v5: "(case map_of (flags ?m5) ''a'' of Some enabled \<Rightarrow> enabled | None \<Rightarrow> False) = False"
    by simp
  have e4: "is_api_enabled ?m4 ''/api/test'' ''GET''"
    using is_api_enabled_first_group [of ?m4 "''/api/test''" "''GET''" "''device-reporting''" "[(''/api/test'', ''GET'')]"]
      h4 v4 by blast
  have e5: "\<not> is_api_enabled ?m5 ''/api/test'' ''get''"
    using is_api_enabled_first_group [of ?m5 "''/api/test''" "''get''" "''a''" "[(''/api/test'', ''GET'')]"]
      h5 v5 by blast
  show ?thesis
    using is_api_enabled_first_group [of ?m1 "''/api/other''" "''get''"] h1
      is_api_enabled_first_group [of ?m2 "''/api/sw''" "''get''" "''software-reporting''" "[(''/api/sw'', ''GET'')]"] h2
      is_api_enabled_first_group [of ?m3 "''/api/sw''" "''GET''"] h3 e4 e5
    by blast
qed

subsection \<open>The signed envelope\<close>

text \<open>
  C3.  The payload handed to the JWS serialisation is the text \<open>{"data": {}}\<close> when no body
  is supplied and \<open>{"data": {"key": "value"}}\<close> for the body \<open>{"key": "value"}\<close>; in general
  it is the JSON object with the single key \<open>data\<close> whose value is the body, or the empty
  object when there is no body.
\<close>

theorem jws_payload_envelope:
  \<open>prepare_jws_payload lib self issued_at meth pth query_string None
     = serialize_compact (hs256 lib) (jws_header self issued_at meth pth query_string)
         ''{"data": {}}'' (token_secret self)
   \<and> prepare_jws_payload lib self issued_at meth pth query_string (Some [(''key'', JStr ''value'')])
     = serialize_compact (hs256 lib) (jws_header self issued_at meth pth query_string)
         ''{"data": {"key": "value"}}'' (token_secret self)
   \<and> prepare_jws_payload lib self issued_at meth pth query_string json_data
     = serialize_compact (hs256 lib) (jws_header self issued_at meth pth query_string)
         (json_dumps (JDict [(''data'', JDict (case json_data of None \<Rightarrow> [] | Some body \<Rightarrow> body))]))
         (token_secret self)
   \<and> json_dumps (JDict [(''data'', JDict (case json_data of None \<Rightarrow> [] | Some body \<Rightarrow> body))])
     = ''{"data": '' @ json_dumps (JDict (case json_data of None \<Rightarrow> [] | Some body \<Rightarrow> body)) @ ''}''\<close>
  by (auto simp: prepare_jws_payload_def request_payload_data_def dumps_defs split: option.splits)

theorem jws_payload_envelope_witness:
  \<open>prepare_jws_payload \<lparr>hs256 = (\<lambda>key message. key @ message), urlparse = (\<lambda>u. (u, [])), urlencode = (\<lambda>ps. [])\<rparr> \<lparr>token_id = ''test_api_key'', token_secret = ''test_api_secret'', api_endpoint = ''https://api.absolute.com/jws/validate''\<rparr> 1700000000000 ''GET'' ''/v3/foo'' [] None
     = serialize_compact (hs256 \<lparr>hs256 = (\<lambda>key message. key @ message), urlparse = (\<lambda>u. (u, [])), urlencode = (\<lambda>ps. [])\<rparr>) (jws_header \<lparr>token_id = ''test_api_key'', token_secret = ''test_api_secret'', api_endpoint = ''https://api.absolute.com/jws/validate''\<rparr> 1700000000000 ''GET'' ''/v3/foo'' [])
         ''{"data": {}}'' (token_secret \<lparr>token_id = ''test_api_key'', token_secret = ''test_api_secret'', api_endpoint = ''https://api.absolute.com/jws/validate''\<rparr>)\<close>
  using jws_payload_envelope [of "\<lparr>hs256 = (\<lambda>key message. key @ message), urlparse = (\<lambda>u. (u, [])), urlencode = (\<lambda>ps. [])\<rparr>" "\<lparr>token_id = ''test_api_key'', token_secret = ''test_api_secret'', api_endpoint = ''https://api.absolute.com/jws/validate''\<rparr>" 1700000000000 "''GET''" "''/v3/foo''" "[]" None]
  by simp

text \<open>
  C10.  The payload construction replaces a missing body and the body \<open>{}\<close> alike by
  the empty object under the key \<open>data\<close>, written \<open>{"data": {}}\<close>, and keeps every other
  body under that key.  The body \<open>{}\<close> therefore gives the same signed envelope as no
  body, and the same outgoing call, all other inputs and the timestamp being equal.
\<close>

theorem empty_body_same_envelope:
  \<open>request_payload_data None = JDict [(''data'', JDict [])]
   \<and> request_payload_data (Some []) = JDict [(''data'', JDict [])]
   \<and> request_payload_data (Some body) = JDict [(''data'', JDict body)]
   \<and> json_dumps (request_payload_data (Some [])) = ''{"data": {}}''
   \<and> json_dumps (request_payload_data None) = ''{"data": {}}''
   \<and> prepare_jws_payload lib self issued_at meth pth query_string (Some [])
     = serialize_compact (hs256 lib) (jws_header self issued_at meth pth query_string)
         ''{"data": {}}'' (token_secret self)
   \<and> prepare_jws_payload lib self issued_at meth pth query_string (Some [])
     = prepare_jws_payload lib self issued_at meth pth query_string None
   \<and> request lib self issued_at meth url (args\<lparr>req_json := Some []\<rparr>)
     = request lib self issued_at meth url (args\<lparr>req_json := None\<rparr>)\<close>
  by (simp add: prepare_jws_payload_def request_payload_data_def request_def Let_def dumps_defs)

theorem empty_body_same_envelope_witness:
  \<open>request_payload_data (Some [(''key'', JStr ''value'')]) = JDict [(''data'', JDict [(''key'', JStr ''value'')])]
   \<and> prepare_jws_payload \<lparr>hs256 = (\<lambda>key message. key @ message), urlparse = (\<lambda>u. (u, [])), urlencode = (\<lambda>ps. [])\<rparr> \<lparr>token_id = ''test_api_key'', token_secret = ''test_api_secret'', api_endpoint = ''https://api.absolute.com/jws/validate''\<rparr> 1700000000000 ''POST'' ''/v3/foo'' [] (Some [])
     = prepare_jws_payload \<lparr>hs256 = (\<lambda>key message. key @ message), urlparse = (\<lambda>u. (u, [])), urlencode = (\<lambda>ps. [])\<rparr> \<lparr>token_id = ''test_api_key'', token_secret = ''test_api_secret'', api_endpoint = ''https://api.absolute.com/jws/validate''\<rparr> 1700000000000 ''POST'' ''/v3/foo'' [] None
   \<and> request \<lparr>hs256 = (\<lambda>key message. key @ message), urlparse = (\<lambda>u. (u, [])), urlencode = (\<lambda>ps. [])\<rparr> \<lparr>token_id = ''test_api_key'', token_secret = ''test_api_secret'', api_endpoint = ''https://api.absolute.com/jws/validate''\<rparr> 1700000000000 ''POST'' ''/foo''
         \<lparr>req_json = Some [], req_params = None, req_headers = None, req_api_endpoint = None, req_transport = ()\<rparr>
     = request \<lparr>hs256 = (\<lambda>key message. key @ message), urlparse = (\<lambda>u. (u, [])), urlencode = (\<lambda>ps. [])\<rparr> \<lparr>token_id = ''test_api_key'', token_secret = ''test_api_secret'', api_endpoint = ''https://api.absolute.com/jws/validate''\<rparr> 1700000000000 ''POST'' ''/foo''
         \<lparr>req_json = None, req_params = None, req_headers = None, req_api_endpoint = None, req_transport = ()\<rparr>\<close>
proof -
  let ?args = "\<lparr>req_json = None, req_params = None, req_headers = None, req_api_endpoint = None, req_transport = ()\<rparr>"
  have u1: "?args\<lparr>req_json := Some []\<rparr>
      = \<lparr>req_json = Some [], req_params = None, req_headers = None, req_api_endpoint = None, req_transport = ()\<rparr>"
    by simp
  have u2: "?args\<lparr>req_json := None\<rparr> = ?args"
    by simp
  note t = empty_body_same_envelope [of "[(''key'', JStr ''value'')]" "\<lparr>hs256 = (\<lambda>key message. key @ message), urlparse = (\<lambda>u. (u, [])), urlencode = (\<lambda>ps. [])\<rparr>" "\<lparr>token_id = ''test_api_key'', token_secret = ''test_api_secret'', api_endpoint = ''https://api.absolute.com/jws/validate''\<rparr>"
      1700000000000 "''POST''" "''/v3/foo''" "[]" "''/foo''" ?args]
  show ?thesis using t [unfolded u1 u2] by blast
qed

subsection \<open>The transport call\<close>

lemma lower_content_type: "lower ''content-type'' = ''content-type''"
  by (simp add: char_case_defs)

lemma merge_header_other:
  "\<forall>(k', v') \<in> set hs. lower k' \<noteq> ''content-type'' \<longrightarrow> k' \<noteq> k
   \<Longrightarrow> map_of (fold merge_header hs acc) k = map_of acc k"
  by (induction hs arbitrary: acc) (auto simp: merge_header_def update_conv')

lemma merge_header_content_type:
  "map_of (fold merge_header hs acc) ''content-type'' = map_of acc ''content-type''"
  using lower_content_type by (intro merge_header_other) auto

lemma merge_header_keys:
  "fst ` set (fold merge_header hs acc) \<subseteq> fst ` set acc \<union> {k \<in> fst ` set hs. lower k \<noteq> ''content-type''}"
proof (induction hs arbitrary: acc)
  case Nil
  then show ?case by simp
next
  case (Cons kv hs)
  obtain k v where kv: "kv = (k, v)" by (cases kv)
  show ?case using Cons.IH [of "merge_header kv acc"] kv
    by (auto simp: merge_header_def dom_update split: if_splits)
qed

lemma merge_header_content_type_key:
  assumes "(k, v) \<in> set (fold merge_header hs acc)" and "lower k = ''content-type''"
  shows "k \<in> fst ` set acc"
proof -
  have "k \<in> fst ` set (fold merge_header hs acc)" using assms(1) by force
  then show ?thesis using merge_header_keys [of hs acc] assms(2) by auto
qed

lemma merge_header_distinct:
  "distinct (map fst acc) \<Longrightarrow> distinct (map fst (fold merge_header hs acc))"
  by (induction hs arbitrary: acc) (auto simp: merge_header_def distinct_update)

lemma merge_header_caller:
  "distinct (map fst hs) \<Longrightarrow> (k, v) \<in> set hs \<Longrightarrow> lower k \<noteq> ''content-type''
   \<Longrightarrow> map_of (fold merge_header hs acc) k = Some v"
proof (induction hs arbitrary: acc)
  case Nil
  then show ?case by simp
next
  case (Cons kv hs)
  show ?case
  proof (cases "kv = (k, v)")
    case True
    then have "k \<notin> fst ` set hs" using Cons.prems(1) by force
    then have "map_of (fold merge_header hs (merge_header kv acc)) k = map_of (merge_header kv acc) k"
      by (intro merge_header_other) force
    moreover have "merge_header kv acc = AList.update k v acc"
      using True Cons.prems(3) by (simp add: merge_header_def)
    ultimately have "map_of (fold merge_header hs (merge_header kv acc)) k = Some v"
      by (simp add: update_conv')
    then show ?thesis by simp
  next
    case False
    then show ?thesis using Cons by auto
  qed
qed

text \<open>
  C4.  Whatever method is passed in, the call handed to the transport is a POST; it goes
  to the \<open>api_endpoint\<close> argument when that is given (a missing or empty argument counts
  as not given) and to the client's validation endpoint, \<open>API_HOST\<close> followed by
  \<open>/jws/validate\<close>, otherwise; its content is the envelope signed for the passed method;
  its \<open>content-type\<close> header is \<open>text/plain\<close>, and no header whose name is
  \<open>content-type\<close> in any letter case is present beside it; every other header of the
  caller is present with the caller's value.
\<close>

theorem request_transport_call:
  "call_method (request lib self issued_at meth url args) = ''POST''
   \<and> call_url (request lib self issued_at meth url args)
       = (case req_api_endpoint args of
            Some e \<Rightarrow> if e \<noteq> [] then e else api_endpoint self
          | None \<Rightarrow> api_endpoint self)
   \<and> api_endpoint (AbsoluteAuthClient_init settings api_key api_secret) = API_HOST settings @ ''/jws/validate''
   \<and> call_content (request lib self issued_at meth url args)
       = prepare_jws_payload lib self issued_at meth (fst (urlparse lib (normalize_url url)))
           (case req_params args of
              Some ps \<Rightarrow>
                if ps \<noteq> []
                then (if snd (urlparse lib (normalize_url url)) \<noteq> []
                      then snd (urlparse lib (normalize_url url)) @ ''&'' @ urlencode lib ps
                      else urlencode lib ps)
                else snd (urlparse lib (normalize_url url))
            | None \<Rightarrow> snd (urlparse lib (normalize_url url)))
           (req_json args)
   \<and> map_of (call_headers (request lib self issued_at meth url args)) ''content-type'' = Some ''text/plain''
   \<and> (\<forall>(k, v) \<in> set (call_headers (request lib self issued_at meth url args)).
         lower k = ''content-type'' \<longrightarrow> k = ''content-type'' \<and> v = ''text/plain'')
   \<and> (\<forall>hs. req_headers args = Some hs \<and> distinct (map fst hs) \<longrightarrow>
         (\<forall>(k, v) \<in> set hs. lower k \<noteq> ''content-type''
            \<longrightarrow> map_of (call_headers (request lib self issued_at meth url args)) k = Some v))"
proof -
  let ?base = "[(''content-type'', ''text/plain'')]"
  let ?out = "call_headers (request lib self issued_at meth url args)"
  have out: "?out = ?base \<or> (\<exists>hs. req_headers args = Some hs \<and> ?out = fold merge_header hs ?base)"
    by (auto simp: request_def Let_def split: option.splits)
  have out_hs: "?out = fold merge_header hs ?base" if "req_headers args = Some hs" for hs
    using that by (cases "hs = []") (simp_all add: request_def Let_def)
  have ct: "map_of ?out ''content-type'' = Some ''text/plain''"
    using out merge_header_content_type [of _ ?base] by auto
  have dist: "distinct (map fst ?out)"
    using out merge_header_distinct [of ?base] by auto
  have keys: "k = ''content-type''" if "(k, v) \<in> set ?out" "lower k = ''content-type''" for k v
  proof -
    have "k \<in> fst ` set ?base"
      using out that merge_header_content_type_key [of k v _ ?base] by auto
    then show ?thesis by simp
  qed
  have only: "\<forall>(k, v) \<in> set ?out. lower k = ''content-type'' \<longrightarrow> k = ''content-type'' \<and> v = ''text/plain''"
  proof (clarify)
    fix k v assume kv: "(k, v) \<in> set ?out" "lower k = ''content-type''"
    then have k: "k = ''content-type''" using keys by blast
    have "map_of ?out k = Some v" using kv(1) dist by simp
    then show "k = ''content-type'' \<and> v = ''text/plain''" using k ct by simp
  qed
  have merged: "\<forall>hs. req_headers args = Some hs \<and> distinct (map fst hs) \<longrightarrow>
         (\<forall>(k, v) \<in> set hs. lower k \<noteq> ''content-type'' \<longrightarrow> map_of ?out k = Some v)"
    using out_hs merge_header_caller by fastforce
  have first: "call_method (request lib self issued_at meth url args) = ''POST''"
    by (simp add: request_def Let_def)
  have url: "call_url (request lib self issued_at meth url args)
       = (case req_api_endpoint args of
            Some e \<Rightarrow> if e \<noteq> [] then e else api_endpoint self
          | None \<Rightarrow> api_endpoint self)"
    by (simp add: request_def Let_def)
  have init: "api_endpoint (AbsoluteAuthClient_init settings api_key api_secret) = API_HOST settings @ ''/jws/validate''"
    by (simp add: AbsoluteAuthClient_init_def)
  have content: "call_content (request lib self issued_at meth url args)
       = prepare_jws_payload lib self issued_at meth (fst (urlparse lib (normalize_url url)))
           (case req_params args of
              Some ps \<Rightarrow>
                if ps \<noteq> []
                then (if snd (urlparse lib (normalize_url url)) \<noteq> []
                      then snd (urlparse lib (normalize_url url)) @ ''&'' @ urlencode lib ps
                      else urlencode lib ps)
                else snd (urlparse lib (normalize_url url))
            | None \<Rightarrow> snd (urlparse lib (normalize_url url)))
           (req_json args)"
    by (simp add: request_def Let_def split: option.splits)
  show ?thesis using first url init content ct only merged by blast
qed

theorem request_transport_call_witness:
  "call_method (request \<lparr>hs256 = (\<lambda>key message. key @ message), urlparse = (\<lambda>u. (u, [])), urlencode = (\<lambda>ps. [])\<rparr> \<lparr>token_id = ''test_api_key'', token_secret = ''test_api_secret'', api_endpoint = ''https://api.absolute.com/jws/validate''\<rparr> 1700000000000 ''GET'' ''/foo'' \<lparr>req_json = None, req_params = None, req_headers = Some [(''Content-Type'', ''application/json''), (''X-Custom'', ''custom'')], req_api_endpoint = None, req_transport = ()\<rparr>) = ''POST''
   \<and> call_url (request \<lparr>hs256 = (\<lambda>key message. key @ message), urlparse = (\<lambda>u. (u, [])), urlencode = (\<lambda>ps. [])\<rparr> \<lparr>token_id = ''test_api_key'', token_secret = ''test_api_secret'', api_endpoint = ''https://api.absolute.com/jws/validate''\<rparr> 1700000000000 ''GET'' ''/foo'' \<lparr>req_json = None, req_params = None, req_headers = Some [(''Content-Type'', ''application/json''), (''X-Custom'', ''custom'')], req_api_endpoint = None, req_transport = ()\<rparr>) = ''https://api.absolute.com/jws/validate''
   \<and> map_of (call_headers (request \<lparr>hs256 = (\<lambda>key message. key @ message), urlparse = (\<lambda>u. (u, [])), urlencode = (\<lambda>ps. [])\<rparr> \<lparr>token_id = ''test_api_key'', token_secret = ''test_api_secret'', api_endpoint = ''https://api.absolute.com/jws/validate''\<rparr> 1700000000000 ''GET'' ''/foo'' \<lparr>req_json = None, req_params = None, req_headers = Some [(''Content-Type'', ''application/json''), (''X-Custom'', ''custom'')], req_api_endpoint = None, req_transport = ()\<rparr>)) ''content-type'' = Some ''text/plain''
   \<and> map_of (call_headers (request \<lparr>hs256 = (\<lambda>key message. key @ message), urlparse = (\<lambda>u. (u, [])), urlencode = (\<lambda>ps. [])\<rparr> \<lparr>token_id = ''test_api_key'', token_secret = ''test_api_secret'', api_endpoint = ''https://api.absolute.com/jws/validate''\<rparr> 1700000000000 ''GET'' ''/foo'' \<lparr>req_json = None, req_params = None, req_headers = Some [(''Content-Type'', ''application/json''), (''X-Custom'', ''custom'')], req_api_endpoint = None, req_transport = ()\<rparr>)) ''X-Custom'' = Some ''custom''
   \<and> map_of (call_headers (request \<lparr>hs256 = (\<lambda>key message. key @ message), urlparse = (\<lambda>u. (u, [])), urlencode = (\<lambda>ps. [])\<rparr> \<lparr>token_id = ''test_api_key'', token_secret = ''test_api_secret'', api_endpoint = ''https://api.absolute.com/jws/validate''\<rparr> 1700000000000 ''GET'' ''/foo'' \<lparr>req_json = None, req_params = None, req_headers = Some [(''Content-Type'', ''application/json''), (''X-Custom'', ''custom'')], req_api_endpoint = None, req_transport = ()\<rparr>)) ''Content-Type'' = None"
proof -
  let ?hs = "[(''Content-Type'', ''application/json''), (''X-Custom'', ''custom'')]"
  let ?out = "call_headers (request \<lparr>hs256 = (\<lambda>key message. key @ message), urlparse = (\<lambda>u. (u, [])), urlencode = (\<lambda>ps. [])\<rparr> \<lparr>token_id = ''test_api_key'', token_secret = ''test_api_secret'', api_endpoint = ''https://api.absolute.com/jws/validate''\<rparr> 1700000000000 ''GET'' ''/foo'' \<lparr>req_json = None, req_params = None, req_headers = Some [(''Content-Type'', ''application/json''), (''X-Custom'', ''custom'')], req_api_endpoint = None, req_transport = ()\<rparr>)"
  note t = request_transport_call [of "\<lparr>hs256 = (\<lambda>key message. key @ message), urlparse = (\<lambda>u. (u, [])), urlencode = (\<lambda>ps. [])\<rparr>" "\<lparr>token_id = ''test_api_key'', token_secret = ''test_api_secret'', api_endpoint = ''https://api.absolute.com/jws/validate''\<rparr>" 1700000000000 "''GET''" "''/foo''" "\<lparr>req_json = None, req_params = None, req_headers = Some [(''Content-Type'', ''application/json''), (''X-Custom'', ''custom'')], req_api_endpoint = None, req_transport = ()\<rparr>"]
  have h: "req_headers \<lparr>req_json = None, req_params = None, req_headers = Some [(''Content-Type'', ''application/json''), (''X-Custom'', ''custom'')], req_api_endpoint = None, req_transport = ()\<rparr> = Some ?hs \<and> distinct (map fst ?hs)" by simp
  have m: "(''X-Custom'', ''custom'') \<in> set ?hs" by simp
  have l: "lower ''X-Custom'' \<noteq> ''content-type''" "lower ''Content-Type'' = ''content-type''"
    by (simp_all add: char_case_defs)
  have "map_of ?out ''X-Custom'' = Some ''custom''" using t h m l(1) by blast
  moreover have "map_of ?out ''Content-Type'' = None"
  proof (cases "map_of ?out ''Content-Type''")
    case None
    then show ?thesis .
  next
    case (Some v)
    then have "(''Content-Type'', v) \<in> set ?out" by (rule map_of_SomeD)
    then have "''Content-Type'' = ''content-type''" using t l(2) by blast
    then show ?thesis by simp
  qed
  moreover have "call_url (request \<lparr>hs256 = (\<lambda>key message. key @ message), urlparse = (\<lambda>u. (u, [])), urlencode = (\<lambda>ps. [])\<rparr> \<lparr>token_id = ''test_api_key'', token_secret = ''test_api_secret'', api_endpoint = ''https://api.absolute.com/jws/validate''\<rparr> 1700000000000 ''GET'' ''/foo'' \<lparr>req_json = None, req_params = None, req_headers = Some [(''Content-Type'', ''application/json''), (''X-Custom'', ''custom'')], req_api_endpoint = None, req_transport = ()\<rparr>) = ''https://api.absolute.com/jws/validate''"
    using t by simp
  ultimately show ?thesis using t by blast
qed

subsection \<open>Timestamps in the envelope\<close>

text \<open>Decimal numerals determine their number.\<close>

lemma digit_char_inj: "a < 16 \<Longrightarrow> b < 16 \<Longrightarrow> digit_char a = digit_char b \<Longrightarrow> a = b"
proof -
  have d: "distinct ''0123456789abcdef''" by simp
  have l: "length ''0123456789abcdef'' = 16" by simp
  show "a < 16 \<Longrightarrow> b < 16 \<Longrightarrow> digit_char a = digit_char b \<Longrightarrow> a = b"
    unfolding digit_char_def using nth_eq_iff_index_eq [OF d, of a b] l by metis
qed

lemma str_nat_nonempty: "str_nat n \<noteq> []"
  by (subst str_nat.simps) simp

lemma str_nat_inj: "str_nat a = str_nat b \<Longrightarrow> a = b"
proof (induction a arbitrary: b rule: less_induct)
  case (less a)
  show ?case
  proof (cases "a < 10")
    case True
    then have a: "str_nat a = [digit_char a]" by (subst str_nat.simps) simp
    show ?thesis
    proof (cases "b < 10")
      case True
      then have "str_nat b = [digit_char b]" by (subst str_nat.simps) simp
      then have "[digit_char a] = [digit_char b]" using a less.prems by metis
      then have "digit_char a = digit_char b" by blast
      moreover have "a < 16" "b < 16" using \<open>a < 10\<close> True by linarith+
      ultimately show ?thesis using digit_char_inj by blast
    next
      case False
      then have "str_nat b = str_nat (b div 10) @ [digit_char (b mod 10)]" by (subst str_nat.simps) simp
      then have "[digit_char a] = str_nat (b div 10) @ [digit_char (b mod 10)]" using a less.prems by metis
      then show ?thesis using str_nat_nonempty [of "b div 10"] by simp
    qed
  next
    case False
    then have a: "str_nat a = str_nat (a div 10) @ [digit_char (a mod 10)]" by (subst str_nat.simps) simp
    show ?thesis
    proof (cases "b < 10")
      case True
      then have "str_nat b = [digit_char b]" by (subst str_nat.simps) simp
      then have "str_nat (a div 10) @ [digit_char (a mod 10)] = [digit_char b]" using a less.prems by metis
      then show ?thesis using str_nat_nonempty [of "a div 10"] by simp
    next
      case bge: False
      then have "str_nat b = str_nat (b div 10) @ [digit_char (b mod 10)]" by (subst str_nat.simps) simp
      then have "str_nat (a div 10) @ [digit_char (a mod 10)] = str_nat (b div 10) @ [digit_char (b mod 10)]"
        using a less.prems by metis
      then have e: "str_nat (a div 10) = str_nat (b div 10)" "digit_char (a mod 10) = digit_char (b mod 10)"
        by simp_all
      have "a div 10 < a" using False by simp
      then have "a div 10 = b div 10" using less.IH e(1) by blast
      moreover have "a mod 10 < 16" "b mod 10 < 16" by (simp_all add: less_trans [OF mod_less_divisor])
      then have "a mod 10 = b mod 10" using e(2) digit_char_inj by blast
      ultimately show ?thesis by (metis div_mult_mod_eq)
    qed
  qed
qed

lemma str_nat_no_minus: "CHR ''-'' \<notin> set (str_nat n)"
proof (induction n rule: str_nat.induct)
  case (1 n)
  have d: "digit_char k \<noteq> CHR ''-''" if "k < 10" for k
  proof -
    have "k \<in> {0,1,2,3,4,5,6,7,8,9}" using that by auto
    then show ?thesis by (auto simp: digit_char_def)
  qed
  show ?case
  proof (cases "n < 10")
    case True
    then show ?thesis using d [of n] by (subst str_nat.simps) auto
  next
    case False
    then show ?thesis using 1 d [of "n mod 10"] by (subst str_nat.simps) auto
  qed
qed

lemma str_int_inj: "str_int i = str_int j \<Longrightarrow> i = j"
proof -
  assume e: "str_int i = str_int j"
  have hd_neg: "hd (str_int k) = CHR ''-''" if "k < 0" for k using that by (simp add: str_int_def)
  have hd_pos: "hd (str_int k) \<noteq> CHR ''-''" if "\<not> k < 0" for k
    using that str_nat_no_minus [of "nat k"] str_nat_nonempty [of "nat k"]
    by (cases "str_nat (nat k)") (auto simp: str_int_def)
  show "i = j"
  proof (cases "i < 0")
    case True
    then have "j < 0" using e hd_neg [of i] hd_pos [of j] by metis
    then have "nat (- i) = nat (- j)" using e True str_nat_inj by (simp add: str_int_def)
    then show ?thesis using True \<open>j < 0\<close> by simp
  next
    case False
    then have "\<not> j < 0" using e hd_neg [of j] hd_pos [of i] by metis
    then have "nat i = nat j" using e False str_nat_inj by (simp add: str_int_def)
    then show ?thesis using False \<open>\<not> j < 0\<close> by simp
  qed
qed

lemma str_nat_ascii: "c \<in> set (str_nat n) \<Longrightarrow> (of_char c :: nat) < 128"
proof (induction n rule: str_nat.induct)
  case (1 n)
  have d: "(of_char (digit_char k) :: nat) < 128" if "k < 10" for k
  proof -
    have "k \<in> {0,1,2,3,4,5,6,7,8,9}" using that by auto
    then show ?thesis by (auto simp: digit_char_def)
  qed
  show ?case
  proof (cases "n < 10")
    case True
    then show ?thesis using d [of n] 1(2) by (subst (asm) str_nat.simps) auto
  next
    case False
    then show ?thesis using 1 d [of "n mod 10"] by (subst (asm) (2) str_nat.simps) auto
  qed
qed

lemma to_bytes_ascii: "\<forall>c \<in> set s. (of_char c :: nat) < 128 \<Longrightarrow> to_bytes s = s"
  by (induction s) (simp_all add: to_bytes_def utf8_char_def)

lemma to_bytes_str_int: "to_bytes (str_int i) = str_int i"
  by (rule to_bytes_ascii) (auto simp: str_int_def dest: str_nat_ascii)

lemma to_bytes_append: "to_bytes (a @ b) = to_bytes a @ to_bytes b"
  by (simp add: to_bytes_def)

lemma jws_header_dumps_inj:
  assumes "to_bytes (dumps False '','' '':'' (jws_header self t1 meth pth qs))
             = to_bytes (dumps False '','' '':'' (jws_header self t2 meth pth qs))"
  shows "t1 = t2"
proof -
  obtain pre where
    "dumps False '','' '':'' (jws_header self t1 meth pth qs) = pre @ str_int t1 @ ''}''"
    "dumps False '','' '':'' (jws_header self t2 meth pth qs) = pre @ str_int t2 @ ''}''"
    by (simp add: jws_header_def)
  then have "to_bytes (str_int t1) = to_bytes (str_int t2)"
    using assms by (simp add: to_bytes_append)
  then show ?thesis unfolding to_bytes_str_int by (rule str_int_inj)
qed

text \<open>
  The base64url text determines the bytes it encodes, and holds no dot, so that the
  first segment of a compact serialisation determines the header.
\<close>

lemma bits_of_char_inj: "bits_of_char c = bits_of_char d \<Longrightarrow> c = d"
  by (cases c; cases d) (simp add: bits_of_char_def)

lemma bits_of_string_inj:
  "concat (map bits_of_char s) = concat (map bits_of_char t) \<Longrightarrow> s = t"
proof (induction s arbitrary: t)
  case Nil
  then show ?case by (cases t) (simp_all add: bits_of_char_def)
next
  case (Cons c s)
  then obtain d t' where t: "t = d # t'" by (cases t) (simp_all add: bits_of_char_def)
  have "bits_of_char c @ concat (map bits_of_char s) = bits_of_char d @ concat (map bits_of_char t')"
    using Cons.prems t by simp
  moreover have "length (bits_of_char c) = length (bits_of_char d)" by (simp add: bits_of_char_def)
  ultimately have "bits_of_char c = bits_of_char d" "concat (map bits_of_char s) = concat (map bits_of_char t')"
    by simp_all
  then show ?case using Cons.IH t bits_of_char_inj by blast
qed

lemma bits_of_string_length: "length (concat (map bits_of_char s)) = 8 * length s"
  by (induction s) (simp_all add: bits_of_char_def)

lemma sextets_length: "length (sextets bs) = (length bs + 5) div 6"
  by (induction bs rule: sextets.induct) simp_all

lemma sextets_take: "take (length bs) (concat (sextets bs)) = bs"
  by (induction bs rule: sextets.induct) simp_all

lemma sextets_six: "g \<in> set (sextets bs) \<Longrightarrow> length g = 6"
  by (induction bs rule: sextets.induct) auto

lemma sextet_count_mono:
  assumes "n < m"
  shows "(8 * n + 5) div 6 < (8 * m + 5) div (6::nat)"
proof -
  have "8 * n + 5 + 6 \<le> 8 * m + 5" using assms by simp
  then have "(8 * n + 5 + 6) div 6 \<le> (8 * m + 5) div 6" by (rule div_le_mono)
  moreover have "(8 * n + 5 + 6) div 6 = (8 * n + 5) div 6 + 1" by simp
  ultimately show ?thesis by simp
qed

lemma sextets_inj:
  assumes "sextets x = sextets y" and "length x = 8 * n" and "length y = 8 * m"
  shows "x = y"
proof -
  have "length (sextets x) = length (sextets y)" using assms(1) by (rule arg_cong)
  then have "(length x + 5) div 6 = (length y + 5) div 6" unfolding sextets_length .
  then have "(8 * n + 5) div 6 = (8 * m + 5) div 6" unfolding assms(2,3) .
  then have "n = m"
    using sextet_count_mono [of n m] sextet_count_mono [of m n] by (cases n m rule: linorder_cases) simp_all
  then have "length x = length y" using assms(2,3) by simp
  then have "take (length x) (concat (sextets x)) = take (length y) (concat (sextets y))"
    using assms(1) by simp
  then show ?thesis unfolding sextets_take .
qed



lemma length_six: "length g = 6 \<Longrightarrow> \<exists>a b c d e f. g = [a, b, c, d, e, f]"
  by (auto simp: length_Suc_conv eval_nat_numeral)


lemma unsextet_value: "unsextet (sextet_value [a, b, c, d, e, f]) = [a, b, c, d, e, f]"
  by (cases a; cases b; cases c; cases d; cases e; cases f) (simp_all add: unsextet_def sextet_value_def)

lemma sextet_value_bound: "sextet_value [a, b, c, d, e, f] < 64"
  by (cases a; cases b; cases c; cases d; cases e; cases f) (simp_all add: sextet_value_def)

lemma b64url_alphabet_inj:
  "i < 64 \<Longrightarrow> j < 64 \<Longrightarrow> b64url_alphabet ! i = b64url_alphabet ! j \<Longrightarrow> i = j"
proof -
  have d: "distinct b64url_alphabet" unfolding b64url_alphabet_def by simp
  have l: "length b64url_alphabet = 64" unfolding b64url_alphabet_def by simp
  show "i < 64 \<Longrightarrow> j < 64 \<Longrightarrow> b64url_alphabet ! i = b64url_alphabet ! j \<Longrightarrow> i = j"
    using nth_eq_iff_index_eq [OF d, of i j] l by metis
qed

lemma b64url_alphabet_no_dot: "i < 64 \<Longrightarrow> b64url_alphabet ! i \<noteq> CHR ''.''"
proof -
  have "CHR ''.'' \<notin> set b64url_alphabet" unfolding b64url_alphabet_def by simp
  moreover have "length b64url_alphabet = 64" unfolding b64url_alphabet_def by simp
  ultimately show "i < 64 \<Longrightarrow> b64url_alphabet ! i \<noteq> CHR ''.''" by (metis nth_mem)
qed

lemma sextet_char_inj:
  assumes "length g = 6" and "length h = 6"
    and "b64url_alphabet ! sextet_value g = b64url_alphabet ! sextet_value h"
  shows "g = h"
proof -
  obtain a b c d e f where g: "g = [a, b, c, d, e, f]" using length_six [OF assms(1)] by blast
  obtain a' b' c' d' e' f' where h: "h = [a', b', c', d', e', f']" using length_six [OF assms(2)] by blast
  have "sextet_value g = sextet_value h"
    using assms(3) b64url_alphabet_inj sextet_value_bound g h by blast
  then have "unsextet (sextet_value g) = unsextet (sextet_value h)" by simp
  then show ?thesis unfolding g h unsextet_value .
qed

lemma urlsafe_b64encode_inj: "urlsafe_b64encode s = urlsafe_b64encode t \<Longrightarrow> s = t"
proof -
  let ?f = "\<lambda>g. b64url_alphabet ! sextet_value g"
  let ?x = "concat (map bits_of_char s)" and ?y = "concat (map bits_of_char t)"
  assume "urlsafe_b64encode s = urlsafe_b64encode t"
  then have m: "map ?f (sextets ?x) = map ?f (sextets ?y)" by (simp add: urlsafe_b64encode_def)
  have "inj_on ?f (set (sextets ?x) \<union> set (sextets ?y))"
    by (rule inj_onI) (auto dest!: sextets_six intro: sextet_char_inj)
  then have "sextets ?x = sextets ?y" using m by (simp add: inj_on_map_eq_map)
  then have "?x = ?y"
    using sextets_inj [of ?x ?y "length s" "length t"] bits_of_string_length by blast
  then show "s = t" by (rule bits_of_string_inj)
qed

lemma urlsafe_b64encode_no_dot: "CHR ''.'' \<notin> set (urlsafe_b64encode s)"
proof
  assume "CHR ''.'' \<in> set (urlsafe_b64encode s)"
  then obtain g where g: "g \<in> set (sextets (concat (map bits_of_char s)))"
    and c: "b64url_alphabet ! sextet_value g = CHR ''.''"
    by (auto simp: urlsafe_b64encode_def)
  obtain a b c d e f where "g = [a, b, c, d, e, f]" using length_six [OF sextets_six [OF g]] by blast
  then have "sextet_value g < 64" using sextet_value_bound by simp
  then show False using c b64url_alphabet_no_dot by blast
qed

lemma split_at_dot:
  "CHR ''.'' \<notin> set a \<Longrightarrow> CHR ''.'' \<notin> set b \<Longrightarrow> a @ CHR ''.'' # r = b @ CHR ''.'' # r'
   \<Longrightarrow> a = b \<and> r = r'"
proof (induction a arbitrary: b)
  case Nil
  then show ?case by (cases b) auto
next
  case (Cons x a)
  then show ?case by (cases b) auto
qed

lemma serialize_compact_header_inj:
  assumes "serialize_compact h p1 payload key = serialize_compact h p2 payload key"
  shows "to_bytes (dumps False '','' '':'' p1) = to_bytes (dumps False '','' '':'' p2)"
proof -
  let ?a = "urlsafe_b64encode (to_bytes (dumps False '','' '':'' p1))"
    and ?b = "urlsafe_b64encode (to_bytes (dumps False '','' '':'' p2))"
  obtain r r' where "?a @ CHR ''.'' # r = ?b @ CHR ''.'' # r'"
    using assms by (simp add: serialize_compact_def Let_def)
  then have "?a = ?b" using split_at_dot urlsafe_b64encode_no_dot by blast
  then show ?thesis by (rule urlsafe_b64encode_inj)
qed

text \<open>
  C5.  With the method, the path, the query string, the body, the credential and the
  HMAC function fixed, the signed envelope is a function of the millisecond timestamp
  that is put in the header as \<open>issuedAt\<close>: equal timestamps give equal envelopes, and
  different timestamps give different envelopes.
\<close>

theorem sign_timestamp:
  "(prepare_jws_payload lib self issued_at1 meth pth query_string json_data
      = prepare_jws_payload lib self issued_at2 meth pth query_string json_data)
   = (issued_at1 = issued_at2)"
proof
  assume "prepare_jws_payload lib self issued_at1 meth pth query_string json_data
      = prepare_jws_payload lib self issued_at2 meth pth query_string json_data"
  then have "to_bytes (dumps False '','' '':'' (jws_header self issued_at1 meth pth query_string))
      = to_bytes (dumps False '','' '':'' (jws_header self issued_at2 meth pth query_string))"
    unfolding prepare_jws_payload_def by (rule serialize_compact_header_inj)
  then show "issued_at1 = issued_at2" by (rule jws_header_dumps_inj)
next
  assume "issued_at1 = issued_at2"
  then show "prepare_jws_payload lib self issued_at1 meth pth query_string json_data
      = prepare_jws_payload lib self issued_at2 meth pth query_string json_data" by simp
qed

theorem sign_timestamp_witness:
  "prepare_jws_payload \<lparr>hs256 = (\<lambda>key message. key @ message), urlparse = (\<lambda>u. (u, [])), urlencode = (\<lambda>ps. [])\<rparr> \<lparr>token_id = ''test_api_key'', token_secret = ''test_api_secret'', api_endpoint = ''https://api.absolute.com/jws/validate''\<rparr> 1700000000000 ''GET'' ''/v3/foo'' [] None
     \<noteq> prepare_jws_payload \<lparr>hs256 = (\<lambda>key message. key @ message), urlparse = (\<lambda>u. (u, [])), urlencode = (\<lambda>ps. [])\<rparr> \<lparr>token_id = ''test_api_key'', token_secret = ''test_api_secret'', api_endpoint = ''https://api.absolute.com/jws/validate''\<rparr> 1700000000001 ''GET'' ''/v3/foo'' [] None"
  using sign_timestamp [of "\<lparr>hs256 = (\<lambda>key message. key @ message), urlparse = (\<lambda>u. (u, [])), urlencode = (\<lambda>ps. [])\<rparr>" "\<lparr>token_id = ''test_api_key'', token_secret = ''test_api_secret'', api_endpoint = ''https://api.absolute.com/jws/validate''\<rparr>" 1700000000000 "''GET''" "''/v3/foo''" "[]" None 1700000000001]
  by simp

subsection \<open>Default flags and the groups of the interface description\<close>

lemma case_letters_disjoint: "\<forall>d \<in> set upper_letters. d \<notin> set lower_letters \<and> d \<noteq> CHR 0xDF"
  unfolding upper_letters_def lower_letters_def by simp

lemma case_letters_length: "length lower_letters = length upper_letters"
  unfolding upper_letters_def lower_letters_def by simp

lemma upper_char_capital:
  assumes "d \<in> set upper_letters"
  shows "upper_char d = [d]"
proof -
  have "d \<notin> set lower_letters" "d \<noteq> CHR 0xDF" using assms case_letters_disjoint by blast+
  then have "map_of (zip lower_letters upper_letters) d = None"
    by (auto simp: map_of_eq_None_iff dest: set_zip_leftD)
  then show ?thesis using \<open>d \<noteq> CHR 0xDF\<close> by (simp add: upper_char_def)
qed

lemma upper_char_idem: "concat (map upper_char (upper_char c)) = upper_char c"
proof (cases "map_of (zip lower_letters upper_letters) c")
  case None
  have "upper_char CHR ''S'' = ''S''"
    by (rule upper_char_capital) (simp add: upper_letters_def)
  then show ?thesis using None by (simp add: upper_char_def)
next
  case (Some d)
  then have "d \<in> set upper_letters" by (auto dest: map_of_SomeD set_zip_rightD)
  then have "upper_char d = [d]" by (rule upper_char_capital)
  moreover have "upper_char c = [d]" using Some by (simp add: upper_char_def)
  ultimately show ?thesis by simp
qed

lemma upper_idem: "upper (upper s) = upper s"
  by (induction s) (simp_all add: upper_def upper_char_idem)

lemma env_no_flags:
  "\<forall>(key, val) \<in> set environ. \<not> startswith key env_prefix \<Longrightarrow> fold env_step environ acc = acc"
  by (induction environ arbitrary: acc) (auto simp: env_step_def)

lemma default_flags:
  "\<forall>(key, val) \<in> set environ. \<not> startswith key env_prefix
   \<Longrightarrow> get_feature_flags_from_env environ = [(''device-reporting'', True)]"
  by (simp add: get_feature_flags_from_env_def env_no_flags)

lemma set_add_set: "set (set_add x s) = insert x (set s)"
  by (auto simp: set_add_def)

lemma group_add_map_of:
  "map_of (group_add k x d) = (map_of d)(k \<mapsto> set_add x (case map_of d k of None \<Rightarrow> [] | Some xs \<Rightarrow> xs))"
  by (auto simp: group_add_def map_of_map_entry update_conv' fun_eq_iff split: option.splits)

lemma group_add_members: "group_members (group_add k x d) = insert (k, x) (group_members d)"
  by (auto simp: group_members_def group_add_map_of set_add_set split: option.splits if_splits)

lemma group_add_distinct: "distinct (map fst d) \<Longrightarrow> distinct (map fst (group_add k x d))"
  by (simp add: group_add_def distinct_map_entry distinct_update)


lemma collect_tags_members:
  "group_members (fold (collect_tag pth meth) ts d)
     = group_members d \<union> {(transform_tag_name t, pth, upper meth) | t. t \<in> set ts}"
  by (induction ts arbitrary: d) (auto simp: collect_tag_def group_add_members)

lemma collect_tags_distinct:
  "distinct (map fst d) \<Longrightarrow> distinct (map fst (fold (collect_tag pth meth) ts d))"
  by (induction ts arbitrary: d) (simp_all add: collect_tag_def group_add_distinct)

lemma collect_operations_members:
  "group_members (fold (collect_operation pth) methods d)
     = group_members d \<union> {(transform_tag_name t, pth, upper meth) | t meth operation.
          (meth, operation) \<in> set methods \<and> t \<in> set (operation_tags operation)}"
proof (induction methods arbitrary: d)
  case Nil
  then show ?case by simp
next
  case (Cons mo methods)
  obtain m0 op0 where mo: "mo = (m0, op0)" by (cases mo)
  have step: "group_members (collect_operation pth mo d)
      = group_members d \<union> {(transform_tag_name t, pth, upper m0) | t. t \<in> set (operation_tags op0)}"
    by (simp add: collect_operation_def mo collect_tags_members)
  show ?case
    unfolding fold_simps Cons.IH step using mo by auto
qed

lemma collect_operations_distinct:
  "distinct (map fst d) \<Longrightarrow> distinct (map fst (fold (collect_operation pth) methods d))"
  by (induction methods arbitrary: d) (auto simp: collect_operation_def collect_tags_distinct)

lemma collect_paths_members:
  "group_members (fold collect_path paths d) = group_members d \<union> declared_members paths"
proof (induction paths arbitrary: d)
  case Nil
  then show ?case by (simp add: declared_members_def)
next
  case (Cons pm paths)
  obtain p0 ms0 where pm: "pm = (p0, ms0)" by (cases pm)
  have step: "group_members (collect_path pm d)
      = group_members d \<union> {(transform_tag_name t, p0, upper meth) | t meth operation.
          (meth, operation) \<in> set ms0 \<and> t \<in> set (operation_tags operation)}"
    by (simp add: collect_path_def pm collect_operations_members)
  have decl: "declared_members (pm # paths)
      = {(transform_tag_name t, p0, upper meth) | t meth operation.
          (meth, operation) \<in> set ms0 \<and> t \<in> set (operation_tags operation)} \<union> declared_members paths"
    unfolding declared_members_def pm by (auto, blast+)
  show ?case
    unfolding fold_simps Cons.IH step decl by auto
qed

lemma collect_paths_distinct:
  "distinct (map fst d) \<Longrightarrow> distinct (map fst (fold collect_path paths d))"
  by (induction paths arbitrary: d) (auto simp: collect_path_def collect_operations_distinct)

lemma register_api_group_members:
  "group_members (api_groups (register_api_group g p m mgr))
     = insert (g, p, upper m) (group_members (api_groups mgr))"
  by (simp add: register_api_group_def group_add_members)

lemma register_group_members:
  "group_members (api_groups (register_group (g, pms) mgr))
     = group_members (api_groups mgr) \<union> {(g, p, upper m) | p m. (p, m) \<in> set pms}"
proof -
  have "group_members (api_groups (fold (\<lambda>(pth, meth). register_api_group g pth meth) pms mgr))
     = group_members (api_groups mgr) \<union> {(g, p, upper m) | p m. (p, m) \<in> set pms}"
    by (induction pms arbitrary: mgr) (auto simp: register_api_group_members)
  then show ?thesis by (simp add: register_group_def)
qed

lemma register_group_flags: "flags (register_group gp mgr) = flags mgr"
proof -
  obtain g pms where gp: "gp = (g, pms)" by (cases gp)
  have "flags (fold (\<lambda>(pth, meth). register_api_group g pth meth) pms mgr) = flags mgr"
    by (induction pms arbitrary: mgr) (auto simp: register_api_group_def)
  then show ?thesis by (simp add: register_group_def gp)
qed

lemma register_group_distinct:
  "distinct (map fst (api_groups mgr)) \<Longrightarrow> distinct (map fst (api_groups (register_group gp mgr)))"
proof -
  obtain g pms where gp: "gp = (g, pms)" by (cases gp)
  have "distinct (map fst (api_groups mgr))
    \<Longrightarrow> distinct (map fst (api_groups (fold (\<lambda>(pth, meth). register_api_group g pth meth) pms mgr)))"
    by (induction pms arbitrary: mgr) (auto simp: register_api_group_def group_add_distinct)
  then show "distinct (map fst (api_groups mgr)) \<Longrightarrow> distinct (map fst (api_groups (register_group gp mgr)))"
    by (simp add: register_group_def gp)
qed

lemma register_groups_flags: "flags (fold register_group groups mgr) = flags mgr"
  by (induction groups arbitrary: mgr) (simp_all add: register_group_flags)

lemma register_groups_distinct:
  "distinct (map fst (api_groups mgr)) \<Longrightarrow> distinct (map fst (api_groups (fold register_group groups mgr)))"
  by (induction groups arbitrary: mgr) (simp_all add: register_group_distinct)

lemma register_groups_members:
  "group_members (api_groups (fold register_group groups mgr))
     = group_members (api_groups mgr) \<union> {(g, p, upper m) | g p m pms. (g, pms) \<in> set groups \<and> (p, m) \<in> set pms}"
proof (induction groups arbitrary: mgr)
  case Nil
  then show ?case by simp
next
  case (Cons gp groups)
  obtain g pms where gp: "gp = (g, pms)" by (cases gp)
  show ?case
    unfolding fold_simps Cons.IH gp register_group_members by auto
qed


lemma group_members_set:
  "distinct (map fst d) \<Longrightarrow> group_members d = {(g, x). \<exists>xs. (g, xs) \<in> set d \<and> x \<in> set xs}"
  by (simp add: group_members_def)

lemma group_members_Nil: "group_members [] = {}"
  by (simp add: group_members_def)

lemma extract_members:
  assumes "api_groups mgr0 = []"
  shows "group_members (api_groups (snd (extract_api_groups_from_openapi paths ([], mgr0))))
           = declared_members paths"
proof -
  let ?groups = "fold collect_path paths []"
  have d: "distinct (map fst ?groups)" by (rule collect_paths_distinct) simp
  have m: "group_members ?groups = declared_members paths"
    by (simp add: collect_paths_members group_members_Nil)
  have "{(g, p, upper m) | g p m pms. (g, pms) \<in> set ?groups \<and> (p, m) \<in> set pms}
          = (\<lambda>(g, p, m). (g, p, upper m)) ` group_members ?groups"
    unfolding group_members_set [OF d] by force
  also have "\<dots> = declared_members paths"
    unfolding m declared_members_def by (force simp: upper_idem)
  finally show ?thesis
    using assms by (simp add: extract_api_groups_from_openapi_def Let_def register_groups_members group_members_Nil)
qed

lemma extract_flags: "flags (snd (extract_api_groups_from_openapi paths (sg, mgr0))) = flags mgr0"
  by (simp add: extract_api_groups_from_openapi_def Let_def register_groups_flags)

lemma extract_distinct:
  "api_groups mgr0 = [] \<Longrightarrow> distinct (map fst (api_groups (snd (extract_api_groups_from_openapi paths (sg, mgr0)))))"
  by (simp add: extract_api_groups_from_openapi_def Let_def register_groups_distinct)

lemma single_group_enabled:
  assumes dist: "distinct (map fst (api_groups mgr))"
    and mem: "(g, pth, upper meth) \<in> group_members (api_groups mgr)"
    and only: "\<forall>g'. (g', pth, upper meth) \<in> group_members (api_groups mgr) \<longrightarrow> g' = g"
  shows "is_api_enabled mgr pth meth = (map_of (flags mgr) g = Some True)"
proof -
  let ?P = "\<lambda>(g, pms). (pth, upper meth) \<in> set pms"
  obtain xs where xs: "(g, xs) \<in> set (api_groups mgr)" "(pth, upper meth) \<in> set xs"
    using mem dist by (auto simp: group_members_set)
  then have ne: "api_groups mgr \<noteq> []" by auto
  have "find ?P (api_groups mgr) \<noteq> None" using xs by (auto simp: find_None_iff)
  then obtain g0 pms0 where f: "find ?P (api_groups mgr) = Some (g0, pms0)" by auto
  then have "(g0, pms0) \<in> set (api_groups mgr)" "(pth, upper meth) \<in> set pms0"
    using find_Some_member [OF f] by auto
  then have "(g0, pth, upper meth) \<in> group_members (api_groups mgr)"
    using dist by (auto simp: group_members_set)
  then have "g0 = g" using only by blast
  then show ?thesis
    using scan_groups_first [OF f, of "flags mgr"] ne by (simp add: is_api_enabled_def)
qed

text \<open>
  C9, as stated, fails.  With no \<open>ABS_FEATURE_\<close> variable set, an operation tagged
  \<open>Device Reporting\<close> whose path contains \<open>-advanced\<close> is excluded by the blocklist, one
  whose method is HEAD keeps the classification that was passed in, and an operation
  tagged \<open>Device Reporting\<close> and \<open>Software Reporting\<close> is decided \<open>TOOL\<close> although it is
  tagged \<open>Software Reporting\<close>.
\<close>

theorem default_flags_scenario_fails:
  "get_feature_flags_from_env [(''HOME'', ''/root'')] = [(''device-reporting'', True)]
   \<and> fst (route_map_fn \<lparr>API_HOST = ''https://api.absolute.com'', DISABLE_ADVANCED_API_BLOCKLIST = False\<rparr>
          (snd (extract_api_groups_from_openapi
                  [(''/reporting/devices-advanced'', [(''get'', \<lparr>tags = Some [''Device Reporting'']\<rparr>)])]
                  ([], FeatureFlagManager_init [(''HOME'', ''/root'')])))
          \<lparr>route_path = ''/reporting/devices-advanced'', route_method = ''GET''\<rparr> RESOURCE) = EXCLUDE
   \<and> fst (route_map_fn \<lparr>API_HOST = ''https://api.absolute.com'', DISABLE_ADVANCED_API_BLOCKLIST = False\<rparr>
          (snd (extract_api_groups_from_openapi
                  [(''/reporting/devices'', [(''head'', \<lparr>tags = Some [''Device Reporting'']\<rparr>)])]
                  ([], FeatureFlagManager_init [(''HOME'', ''/root'')])))
          \<lparr>route_path = ''/reporting/devices'', route_method = ''HEAD''\<rparr> RESOURCE) = RESOURCE
   \<and> fst (route_map_fn \<lparr>API_HOST = ''https://api.absolute.com'', DISABLE_ADVANCED_API_BLOCKLIST = False\<rparr>
          (snd (extract_api_groups_from_openapi
                  [(''/reporting/all'', [(''get'', \<lparr>tags = Some [''Device Reporting'', ''Software Reporting'']\<rparr>)])]
                  ([], FeatureFlagManager_init [(''HOME'', ''/root'')])))
          \<lparr>route_path = ''/reporting/all'', route_method = ''GET''\<rparr> RESOURCE) = TOOL"
  by (simp add: route_map_fn_def categorize_def is_api_enabled_def char_case_defs extract_defs)

text \<open>
  C9, amended.  When no variable of the environment starts with \<open>ABS_FEATURE_\<close>, the
  flags are \<open>device-reporting\<close> set to true and nothing else, so that exactly this group is
  enabled.  After the groups of an interface description are registered with a fresh
  manager, an operation whose only tag is \<open>tag\<close> (no other operation with the same path
  and upper-cased method carrying another tag) is a member of the group named by the
  transformed tag.  Its route is decided \<open>TOOL\<close> when the tag is \<open>Device Reporting\<close>, the
  blocklist does not apply and the method is one of the five verbs, and \<open>EXCLUDE\<close> when
  the tag is \<open>Software Reporting\<close>.
\<close>

theorem default_flags_scenario:
  fixes environ :: "(string \<times> string) list" and paths :: openapi_paths
  defines "mgr \<equiv> snd (extract_api_groups_from_openapi paths ([], FeatureFlagManager_init environ))"
  assumes env: "\<forall>(key, val) \<in> set environ. \<not> startswith key ''ABS_FEATURE_''"
    and op: "(pth, methods) \<in> set paths" "(meth, operation) \<in> set methods"
    and only: "\<forall>(p', ms') \<in> set paths. \<forall>(m', op') \<in> set ms'.
                 p' = pth \<and> upper m' = upper meth \<longrightarrow> operation_tags op' = [tag]"
    and route: "route_path route = pth" "upper (route_method route) = upper meth"
  shows "get_feature_flags_from_env environ = [(''device-reporting'', True)]
    \<and> get_enabled_api_groups mgr = {''device-reporting''}
    \<and> (\<exists>pms. map_of (api_groups mgr) (transform_tag_name tag) = Some pms \<and> (pth, upper meth) \<in> set pms)
    \<and> (tag = ''Device Reporting''
         \<and> \<not> (contains pth ''-advanced'' \<and> \<not> DISABLE_ADVANCED_API_BLOCKLIST settings)
         \<and> upper meth \<in> {''GET'', ''POST'', ''PUT'', ''PATCH'', ''DELETE''}
       \<longrightarrow> fst (route_map_fn settings mgr route mcp_type) = TOOL)
    \<and> (tag = ''Software Reporting''
       \<longrightarrow> fst (route_map_fn settings mgr route mcp_type) = EXCLUDE)"
proof -
  have fl: "get_feature_flags_from_env environ = [(''device-reporting'', True)]"
    using env by (intro default_flags) (simp add: env_prefix_def)
  have flags: "flags mgr = [(''device-reporting'', True)]"
    unfolding mgr_def extract_flags by (simp add: FeatureFlagManager_init_def fl)
  have en: "get_enabled_api_groups mgr = {''device-reporting''}"
    unfolding get_enabled_api_groups_def flags by simp
  have members: "group_members (api_groups mgr) = declared_members paths"
    unfolding mgr_def by (rule extract_members) (simp add: FeatureFlagManager_init_def)
  have dist: "distinct (map fst (api_groups mgr))"
    unfolding mgr_def by (rule extract_distinct) (simp add: FeatureFlagManager_init_def)
  have tags: "operation_tags operation = [tag]" using only op by blast
  have mem: "(transform_tag_name tag, pth, upper meth) \<in> group_members (api_groups mgr)"
    unfolding members declared_members_def using op tags by force
  have uniq: "\<forall>g'. (g', pth, upper meth) \<in> group_members (api_groups mgr) \<longrightarrow> g' = transform_tag_name tag"
    unfolding members declared_members_def using only by fastforce
  have up: "upper (upper (route_method route)) = upper meth"
    using route(2) by (simp add: upper_idem)
  have mem': "(transform_tag_name tag, pth, upper (upper (route_method route))) \<in> group_members (api_groups mgr)"
    using mem unfolding up .
  have uniq': "\<forall>g'. (g', pth, upper (upper (route_method route))) \<in> group_members (api_groups mgr)
                 \<longrightarrow> g' = transform_tag_name tag"
    using uniq unfolding up .
  have enabled: "is_api_enabled mgr (route_path route) (upper (route_method route))
                   = (transform_tag_name tag = ''device-reporting'')"
    unfolding route(1) single_group_enabled [OF dist mem' uniq'] flags by simp
  have dr: "transform_tag_name ''Device Reporting'' = ''device-reporting''"
    by (simp add: transform_tag_name_def replace_def char_case_defs)
  have sr: "transform_tag_name ''Software Reporting'' \<noteq> ''device-reporting''"
    by (simp add: transform_tag_name_def replace_def char_case_defs)
  have tool: "fst (route_map_fn settings mgr route mcp_type) = TOOL"
    if "tag = ''Device Reporting''"
      "\<not> (contains pth ''-advanced'' \<and> \<not> DISABLE_ADVANCED_API_BLOCKLIST settings)"
      "upper meth \<in> {''GET'', ''POST'', ''PUT'', ''PATCH'', ''DELETE''}"
    using that enabled dr route by (auto simp: route_map_fn_def categorize_def Let_def)
  have excl: "fst (route_map_fn settings mgr route mcp_type) = EXCLUDE"
    if "tag = ''Software Reporting''"
    using that enabled sr by (auto simp: route_map_fn_def categorize_def Let_def)
  have reg: "\<exists>pms. map_of (api_groups mgr) (transform_tag_name tag) = Some pms \<and> (pth, upper meth) \<in> set pms"
    using mem by (simp add: group_members_def)
  show ?thesis using fl en reg tool excl by blast
qed

theorem default_flags_scenario_witness:
  "get_feature_flags_from_env [(''HOME'', ''/root''), (''ABS_API_KEY'', ''k'')] = [(''device-reporting'', True)]
   \<and> fst (route_map_fn \<lparr>API_HOST = ''https://api.absolute.com'', DISABLE_ADVANCED_API_BLOCKLIST = False\<rparr>
          (snd (extract_api_groups_from_openapi
                  [(''/reporting/devices'', [(''get'', \<lparr>tags = Some [''Device Reporting'']\<rparr>)]),
                   (''/reporting/applications'', [(''get'', \<lparr>tags = Some [''Software Reporting'']\<rparr>)])]
                  ([], FeatureFlagManager_init [(''HOME'', ''/root''), (''ABS_API_KEY'', ''k'')])))
          \<lparr>route_path = ''/reporting/devices'', route_method = ''GET''\<rparr> RESOURCE) = TOOL
   \<and> fst (route_map_fn \<lparr>API_HOST = ''https://api.absolute.com'', DISABLE_ADVANCED_API_BLOCKLIST = False\<rparr>
          (snd (extract_api_groups_from_openapi
                  [(''/reporting/devices'', [(''get'', \<lparr>tags = Some [''Device Reporting'']\<rparr>)]),
                   (''/reporting/applications'', [(''get'', \<lparr>tags = Some [''Software Reporting'']\<rparr>)])]
                  ([], FeatureFlagManager_init [(''HOME'', ''/root''), (''ABS_API_KEY'', ''k'')])))
          \<lparr>route_path = ''/reporting/applications'', route_method = ''GET''\<rparr> RESOURCE) = EXCLUDE"
proof -
  let ?env = "[(''HOME'', ''/root''), (''ABS_API_KEY'', ''k'')]"
  let ?dev = "[(''get'', \<lparr>tags = Some [''Device Reporting'']\<rparr>)]"
  let ?sw = "[(''get'', \<lparr>tags = Some [''Software Reporting'']\<rparr>)]"
  let ?paths = "[(''/reporting/devices'', ?dev), (''/reporting/applications'', ?sw)]"
  let ?s = "\<lparr>API_HOST = ''https://api.absolute.com'', DISABLE_ADVANCED_API_BLOCKLIST = False\<rparr>"
  let ?r1 = "\<lparr>route_path = ''/reporting/devices'', route_method = ''GET''\<rparr>"
  let ?r2 = "\<lparr>route_path = ''/reporting/applications'', route_method = ''GET''\<rparr>"
  have env: "\<forall>(key, val) \<in> set ?env. \<not> startswith key ''ABS_FEATURE_''"
    by (simp add: startswith_def)
  have p1: "(''/reporting/devices'', ?dev) \<in> set ?paths" "(''get'', \<lparr>tags = Some [''Device Reporting'']\<rparr>) \<in> set ?dev"
    by simp_all
  have p2: "(''/reporting/applications'', ?sw) \<in> set ?paths" "(''get'', \<lparr>tags = Some [''Software Reporting'']\<rparr>) \<in> set ?sw"
    by simp_all
  have o1: "\<forall>(p', ms') \<in> set ?paths. \<forall>(m', op') \<in> set ms'.
              p' = ''/reporting/devices'' \<and> upper m' = upper ''get'' \<longrightarrow> operation_tags op' = [''Device Reporting'']"
    by (simp add: operation_tags_def)
  have o2: "\<forall>(p', ms') \<in> set ?paths. \<forall>(m', op') \<in> set ms'.
              p' = ''/reporting/applications'' \<and> upper m' = upper ''get'' \<longrightarrow> operation_tags op' = [''Software Reporting'']"
    by (simp add: operation_tags_def)
  have r1: "route_path ?r1 = ''/reporting/devices''" "upper (route_method ?r1) = upper ''get''"
    by (simp_all add: char_case_defs)
  have r2: "route_path ?r2 = ''/reporting/applications''" "upper (route_method ?r2) = upper ''get''"
    by (simp_all add: char_case_defs)
  have b: "\<not> (contains ''/reporting/devices'' ''-advanced'' \<and> \<not> DISABLE_ADVANCED_API_BLOCKLIST ?s)"
    by simp
  have v: "upper ''get'' \<in> {''GET'', ''POST'', ''PUT'', ''PATCH'', ''DELETE''}"
    by (simp add: char_case_defs)
  show ?thesis
    using default_flags_scenario [OF env p1 o1 r1, of ?s RESOURCE]
      default_flags_scenario [OF env p2 o2 r2, of ?s RESOURCE] b v
    by blast
qed

end
